theory Spec2Isabelle
  imports Complex_Main
begin

section \<open>Data model of XEnvironment.py\<close>

text \<open>
  Python floats are modelled as exact reals, so every statement below is about the
  arithmetic the code writes down, not about rounding. A \<open>datetime\<close> is the number of
  microseconds since the epoch, the resolution of Python's \<open>datetime\<close>; the clock value
  returned by \<open>datetime.now()\<close> is an argument of each function that reads it.
\<close>

datatype NeedState = ENGAGEMENT | REACH | RELEVANCE | AUTHORITY | CONVERSION

datatype ActionType = POST | REPLY | QUOTE | RETWEET | LIKE | FOLLOW | SEARCH

type_synonym datetime = int

text \<open>Iteration order of the two enumerations (\<open>for need in NeedState\<close>, \<open>for action in ActionType\<close>).\<close>

definition all_needs :: "NeedState list" where
  "all_needs = [ENGAGEMENT, REACH, RELEVANCE, AUTHORITY, CONVERSION]"

definition all_actions :: "ActionType list" where
  "all_actions = [POST, REPLY, QUOTE, RETWEET, LIKE, FOLLOW, SEARCH]"

text \<open>\<open>NeedState.decay_rates()\<close>: a dict literal, iterated with \<open>.items()\<close> in insertion order.\<close>

definition decay_rates :: "(NeedState \<times> real) list" where
  "decay_rates =
     [(ENGAGEMENT, 0.5), (REACH, 0.3), (RELEVANCE, 0.2), (AUTHORITY, 0.1), (CONVERSION, 0.4)]"

text \<open>Exceptions the modelled code can raise.\<close>

datatype exn =
    KeyError string
  | ValueError string
  | TypeError string
  | IndexError string
  | AttributeError string
  | JSONDecodeError
  | OtherError string

record XMetrics =
  followers :: int
  following :: int
  tweets :: int
  engagement_rate :: real
  impression_rate :: real
  last_updated :: datetime

text \<open>
  \<open>StateManager\<close>: \<open>needs\<close> is a dict keyed by \<open>NeedState\<close>; a key may be absent, and
  \<open>self.needs[need]\<close> then raises \<open>KeyError\<close>. The \<open>state_file\<close> path is fixed; the
  content of the file at that path is a separate argument of save and load.
\<close>

record StateManager =
  needs :: "NeedState \<rightharpoonup> real"
  metrics :: XMetrics
  last_action_time :: datetime

text \<open>The \<open>value\<close> string of each \<open>NeedState\<close> member, used as the key in the stored file.\<close>

fun need_value :: "NeedState \<Rightarrow> string" where
  "need_value ENGAGEMENT = ''engagement''"
| "need_value REACH = ''reach''"
| "need_value RELEVANCE = ''relevance''"
| "need_value AUTHORITY = ''authority''"
| "need_value CONVERSION = ''conversion''"

text \<open>\<open>timedelta.total_seconds()\<close> of a difference of two datetimes.\<close>

definition total_seconds :: "int \<Rightarrow> real" where
  "total_seconds td = real_of_int td / 1000000"

section \<open>StateManager.decay_needs\<close>

text \<open>
  The loop \<open>for need, rate in NeedState.decay_rates().items()\<close>. It mutates \<open>self.needs\<close>
  in place, so when \<open>self.needs[need]\<close> raises the needs visited before stay decayed:
  every function returns the state together with its outcome.
\<close>

fun decay_loop ::
  "real \<Rightarrow> (NeedState \<times> real) list \<Rightarrow> StateManager \<Rightarrow> (exn + unit) \<times> StateManager" where
  "decay_loop decay_hours [] s = (Inr (), s)"
| "decay_loop decay_hours ((need, rate) # rest) s =
     (case needs s need of
        None \<Rightarrow> (Inl (KeyError (need_value need)), s)
      | Some v \<Rightarrow>
          (let decay = rate * decay_hours
           in decay_loop decay_hours rest (s\<lparr>needs := (needs s)(need \<mapsto> max 0 (v - decay))\<rparr>)))"

definition decay_needs :: "datetime \<Rightarrow> StateManager \<Rightarrow> (exn + unit) \<times> StateManager" where
  "decay_needs now s =
     (let time_delta = now - last_action_time s;
          decay_hours = total_seconds time_delta / 3600
      in decay_loop decay_hours decay_rates s)"

section \<open>The action catalogue and the ranking\<close>

text \<open>
  \<open>XEnvironment._initialize_action_effects\<close>: a dict of dicts, both in insertion order.
  \<open>self.action_effects\<close> is assigned from it once in \<open>__init__\<close> and never again, so
  the model reads the constant.
\<close>

definition initialize_action_effects :: "(ActionType \<times> (NeedState \<times> real) list) list" where
  "initialize_action_effects =
     [(POST, [(ENGAGEMENT, 15), (REACH, 10), (RELEVANCE, 5)]),
      (REPLY, [(ENGAGEMENT, 20), (AUTHORITY, 5)]),
      (LIKE, [(ENGAGEMENT, 5), (RELEVANCE, 2)]),
      (FOLLOW, [(REACH, 10), (AUTHORITY, 5)])]"

text \<open>
  \<open>sum(effect * (1.0 - self.state.needs[need] / 100.0) for need, effect in ...items())\<close>:
  \<open>sum\<close> starts from 0 and adds the terms from left to right.
\<close>

fun utility_sum :: "(NeedState \<rightharpoonup> real) \<Rightarrow> (NeedState \<times> real) list \<Rightarrow> real \<Rightarrow> exn + real" where
  "utility_sum nd [] acc = Inr acc"
| "utility_sum nd ((need, effect) # rest) acc =
     (case nd need of
        None \<Rightarrow> Inl (KeyError (need_value need))
      | Some v \<Rightarrow> utility_sum nd rest (acc + effect * (1 - v / 100)))"

text \<open>The loop \<open>for action in ActionType\<close> with its \<open>actions.append\<close>.\<close>

fun score_actions ::
  "(NeedState \<rightharpoonup> real) \<Rightarrow> ActionType list \<Rightarrow> (ActionType \<times> real) list \<Rightarrow>
   exn + (ActionType \<times> real) list" where
  "score_actions nd [] actions = Inr actions"
| "score_actions nd (action # rest) actions =
     (case map_of initialize_action_effects action of
        None \<Rightarrow> score_actions nd rest actions
      | Some effects \<Rightarrow>
          (case utility_sum nd effects 0 of
             Inl e \<Rightarrow> Inl e
           | Inr utility \<Rightarrow> score_actions nd rest (actions @ [(action, utility)])))"

text \<open>
  \<open>sorted(xs, key=k, reverse=True)\<close>: CPython reverses the list, sorts it stably in
  ascending key order, and reverses the result.
\<close>

definition sorted_reverse :: "('a \<Rightarrow> real) \<Rightarrow> 'a list \<Rightarrow> 'a list" where
  "sorted_reverse k xs = rev (sort_key k (rev xs))"

definition get_available_actions ::
  "datetime \<Rightarrow> StateManager \<Rightarrow> (exn + (ActionType \<times> real) list) \<times> StateManager" where
  "get_available_actions now s =
     (case decay_needs now s of
        (Inl e, s') \<Rightarrow> (Inl e, s')
      | (Inr u, s') \<Rightarrow>
          (case score_actions (needs s') all_actions [] of
             Inl e \<Rightarrow> (Inl e, s')
           | Inr actions \<Rightarrow> (Inr (sorted_reverse snd actions), s')))"

section \<open>Results of API calls\<close>

datatype json =
    JNull
  | JBool bool
  | JNum real
  | JStr string
  | JList "json list"
  | JObj "(string \<times> json) list"

text \<open>
  A parsed JSON object is an association list with distinct keys. The dicts that the API
  methods return to \<open>XEnvironment\<close> are of this shape; \<open>"error" in result\<close> tests for a key.
\<close>

type_synonym result = "(string \<times> json) list"

definition error_in :: "result \<Rightarrow> bool" where
  "error_in r = (map_of r ''error'' \<noteq> None)"

text \<open>
  \<open>str(e)\<close>: the payload of an exception is its message. The messages of the
  exceptions that Python itself raises are abbreviated; nothing below depends on them.
\<close>

fun str_exn :: "exn \<Rightarrow> string" where
  "str_exn (KeyError m) = m"
| "str_exn (ValueError m) = m"
| "str_exn (TypeError m) = m"
| "str_exn (IndexError m) = m"
| "str_exn (AttributeError m) = m"
| "str_exn JSONDecodeError = ''Expecting value''"
| "str_exn (OtherError m) = m"

section \<open>XEnvironment.execute_action\<close>

text \<open>
  The API object is a collaborator: each method is given by the outcome of awaiting it on
  the keyword arguments, a result dict or an exception. \<open>follow_user\<close> may be missing
  from the object (the \<open>TwitterAPI\<close> class of twitter_cli.py does not define it), and
  reading the attribute then raises \<open>AttributeError\<close>.
\<close>

type_synonym kwargs = "(string \<times> json) list"

record TwitterAPI =
  create_tweet :: "kwargs \<Rightarrow> exn + result"
  like_tweet :: "kwargs \<Rightarrow> exn + result"
  follow_user :: "(kwargs \<Rightarrow> exn + result) option"

text \<open>
  \<open>_perform_api_action\<close> builds the dispatch dict first (reading all four attributes),
  then rejects an action that is not a key, then awaits the call. The \<open>REPLY\<close> entry
  passes \<open>reply_to_id\<close> both by name and inside \<open>**kw\<close>, a \<open>TypeError\<close> when \<open>kw\<close>
  already holds that key.
\<close>

fun action_name :: "ActionType \<Rightarrow> string" where
  "action_name POST = ''POST''"
| "action_name REPLY = ''REPLY''"
| "action_name QUOTE = ''QUOTE''"
| "action_name RETWEET = ''RETWEET''"
| "action_name LIKE = ''LIKE''"
| "action_name FOLLOW = ''FOLLOW''"
| "action_name SEARCH = ''SEARCH''"

definition perform_api_action :: "TwitterAPI \<Rightarrow> ActionType \<Rightarrow> kwargs \<Rightarrow> exn + result" where
  "perform_api_action api action kw =
     (case follow_user api of
        None \<Rightarrow> Inl (AttributeError ''follow_user'')
      | Some follow \<Rightarrow>
          (case action of
             POST \<Rightarrow> create_tweet api kw
           | REPLY \<Rightarrow>
               (if map_of kw ''reply_to_id'' \<noteq> None
                then Inl (TypeError ''got multiple values for keyword argument reply_to_id'')
                else create_tweet api ((''reply_to_id'', JNull) # kw))
           | LIKE \<Rightarrow> like_tweet api kw
           | FOLLOW \<Rightarrow> follow kw
           | _ \<Rightarrow> Inl (ValueError (''Unsupported action: ActionType.'' @ action_name action))))"

text \<open>The loop of \<open>_update_state_from_action\<close> over the effects of the action.\<close>

fun apply_effects ::
  "(NeedState \<times> real) list \<Rightarrow> StateManager \<Rightarrow> (exn + unit) \<times> StateManager" where
  "apply_effects [] s = (Inr (), s)"
| "apply_effects ((need, effect) # rest) s =
     (case needs s need of
        None \<Rightarrow> (Inl (KeyError (need_value need)), s)
      | Some v \<Rightarrow> apply_effects rest (s\<lparr>needs := (needs s)(need \<mapsto> min 100 (v + effect))\<rparr>))"

definition update_state_from_action ::
  "datetime \<Rightarrow> ActionType \<Rightarrow> StateManager \<Rightarrow> (exn + unit) \<times> StateManager" where
  "update_state_from_action now action s =
     (case map_of initialize_action_effects action of
        None \<Rightarrow> (Inr (), s\<lparr>last_action_time := now\<rparr>)
      | Some effects \<Rightarrow>
          (case apply_effects effects s of
             (Inl e, s') \<Rightarrow> (Inl e, s')
           | (Inr u, s') \<Rightarrow> (Inr (), s'\<lparr>last_action_time := now\<rparr>)))"

section \<open>Persistence: save_state and load_state\<close>

text \<open>
  The state file holds one JSON document. \<open>json.dumps\<close>/\<open>json.loads\<close> and
  \<open>isoformat\<close>/\<open>fromisoformat\<close> are library code; the model keeps the document in
  parsed form, with need keys as strings. A metrics field may be missing from a stored
  document; pydantic then takes the field's default.
\<close>

record stored_metrics =
  sm_followers :: "int option"
  sm_following :: "int option"
  sm_tweets :: "int option"
  sm_engagement_rate :: "real option"
  sm_impression_rate :: "real option"
  sm_last_updated :: "datetime option"

record state_dict =
  sd_needs :: "(string \<times> real) list"
  sd_metrics :: stored_metrics
  sd_last_action_time :: datetime

text \<open>What is at the path \<open>state_file\<close>: nothing, text that is not JSON, or a document.\<close>

datatype file_content = Corrupt | Doc state_dict

type_synonym disk = "file_content option"

text \<open>\<open>XMetrics.model_dump\<close> and the constructor call \<open>XMetrics(**d)\<close>.\<close>

definition model_dump :: "XMetrics \<Rightarrow> stored_metrics" where
  "model_dump m =
     \<lparr>sm_followers = Some (followers m), sm_following = Some (following m),
      sm_tweets = Some (tweets m), sm_engagement_rate = Some (engagement_rate m),
      sm_impression_rate = Some (impression_rate m), sm_last_updated = Some (last_updated m)\<rparr>"

definition XMetrics_init :: "datetime \<Rightarrow> stored_metrics \<Rightarrow> XMetrics" where
  "XMetrics_init now d =
     \<lparr>followers = (case sm_followers d of None \<Rightarrow> 0 | Some x \<Rightarrow> x),
      following = (case sm_following d of None \<Rightarrow> 0 | Some x \<Rightarrow> x),
      tweets = (case sm_tweets d of None \<Rightarrow> 0 | Some x \<Rightarrow> x),
      engagement_rate = (case sm_engagement_rate d of None \<Rightarrow> 0 | Some x \<Rightarrow> x),
      impression_rate = (case sm_impression_rate d of None \<Rightarrow> 0 | Some x \<Rightarrow> x),
      last_updated = (case sm_last_updated d of None \<Rightarrow> now | Some x \<Rightarrow> x)\<rparr>"

text \<open>
  \<open>{k.value: v for k, v in self.needs.items()}\<close>. The keys of \<open>self.needs\<close> are visited
  in enumeration order here; Python visits them in insertion order, which changes the
  order of the entries in the file and nothing that load reads from it.
\<close>

definition dump_needs :: "(NeedState \<rightharpoonup> real) \<Rightarrow> (string \<times> real) list" where
  "dump_needs nd = List.map_filter (\<lambda>k. map_option (\<lambda>v. (need_value k, v)) (nd k)) all_needs"

text \<open>\<open>write_text\<close> overwrites the file; a failing write is not modelled.\<close>

definition save_state :: "StateManager \<Rightarrow> disk" where
  "save_state s =
     Some (Doc \<lparr>sd_needs = dump_needs (needs s),
                sd_metrics = model_dump (metrics s),
                sd_last_action_time = last_action_time s\<rparr>)"

text \<open>The enum lookup \<open>NeedState(k)\<close>: \<open>ValueError\<close> when no member has the value \<open>k\<close>.\<close>

definition NeedState_of :: "string \<Rightarrow> exn + NeedState" where
  "NeedState_of k =
     (if k = ''engagement'' then Inr ENGAGEMENT
      else if k = ''reach'' then Inr REACH
      else if k = ''relevance'' then Inr RELEVANCE
      else if k = ''authority'' then Inr AUTHORITY
      else if k = ''conversion'' then Inr CONVERSION
      else Inl (ValueError (k @ '' is not a valid NeedState'')))"

text \<open>\<open>{NeedState(k): v for k, v in state_dict["needs"].items()}\<close>.\<close>

fun load_needs ::
  "(string \<times> real) list \<Rightarrow> (NeedState \<rightharpoonup> real) \<Rightarrow> exn + (NeedState \<rightharpoonup> real)" where
  "load_needs [] acc = Inr acc"
| "load_needs ((k, v) # rest) acc =
     (case NeedState_of k of
        Inl e \<Rightarrow> Inl e
      | Inr need \<Rightarrow> load_needs rest (acc(need \<mapsto> v)))"

definition load_state :: "datetime \<Rightarrow> disk \<Rightarrow> StateManager \<Rightarrow> (exn + unit) \<times> StateManager" where
  "load_state now d s =
     (case d of
        None \<Rightarrow> (Inr (), s)
      | Some Corrupt \<Rightarrow> (Inl JSONDecodeError, s)
      | Some (Doc state_dict) \<Rightarrow>
          (case load_needs (sd_needs state_dict) Map.empty of
             Inl e \<Rightarrow> (Inl e, s)
           | Inr nd \<Rightarrow>
               (Inr (), \<lparr>needs = nd,
                         metrics = XMetrics_init now (sd_metrics state_dict),
                         last_action_time = sd_last_action_time state_dict\<rparr>)))"

text \<open>The default \<open>StateManager()\<close> and \<open>XEnvironment.__init__\<close>, which loads into it.\<close>

definition StateManager_init :: "datetime \<Rightarrow> StateManager" where
  "StateManager_init now =
     \<lparr>needs = (\<lambda>need. Some 100),
      metrics = \<lparr>followers = 0, following = 0, tweets = 0, engagement_rate = 0,
                 impression_rate = 0, last_updated = now\<rparr>,
      last_action_time = now\<rparr>"

definition XEnvironment_init :: "datetime \<Rightarrow> disk \<Rightarrow> (exn + unit) \<times> StateManager" where
  "XEnvironment_init now d = load_state now d (StateManager_init now)"

text \<open>
  \<open>execute_action\<close>: the whole body is inside \<open>try\<close>, and \<open>except Exception\<close> turns any
  exception into an error result, keeping whatever was mutated before the raise. It
  returns the result, the state and the content of the state file.
\<close>

definition execute_action ::
  "TwitterAPI \<Rightarrow> datetime \<Rightarrow> ActionType \<Rightarrow> kwargs \<Rightarrow> StateManager \<Rightarrow> disk \<Rightarrow>
   result \<times> StateManager \<times> disk" where
  "execute_action api now action kw s d =
     (case perform_api_action api action kw of
        Inl e \<Rightarrow> ([(''error'', JStr (str_exn e))], s, d)
      | Inr result \<Rightarrow>
          (if \<not> error_in result then
             (case update_state_from_action now action s of
                (Inl e, s') \<Rightarrow> ([(''error'', JStr (str_exn e))], s', d)
              | (Inr u, s') \<Rightarrow> (result, s', save_state s'))
           else (result, s, d)))"

section \<open>TwitterAPI._make_request of twitter_cli.py\<close>

text \<open>
  What the HTTP layer hands back for one request: the status code, the
  \<open>x-rate-limit-reset\<close> header (absent, an integer, or text that \<open>int\<close> rejects), the body
  as \<open>response.json()\<close> parses it (\<open>None\<close> when it is not JSON) and the raw text.
\<close>

datatype reset_header = Missing | Numeric int | NonNumeric

record response =
  status_code :: int
  rate_limit_reset :: reset_header
  body :: "json option"
  text_of :: string

text \<open>Python's \<open>in\<close>, subscripting by a string and subscripting by \<open>0\<close> on a parsed JSON value.\<close>

fun str_contains :: "string \<Rightarrow> string \<Rightarrow> bool" where
  "str_contains k [] = (k = [])"
| "str_contains k (c # cs) = (take (length k) (c # cs) = k \<or> str_contains k cs)"

fun py_in :: "string \<Rightarrow> json \<Rightarrow> exn + bool" where
  "py_in k (JObj kvs) = Inr (map_of kvs k \<noteq> None)"
| "py_in k (JList xs) = Inr (JStr k \<in> set xs)"
| "py_in k (JStr s) = Inr (str_contains k s)"
| "py_in k j = Inl (TypeError ''argument is not iterable'')"

fun getitem_str :: "json \<Rightarrow> string \<Rightarrow> exn + json" where
  "getitem_str (JObj kvs) k = (case map_of kvs k of None \<Rightarrow> Inl (KeyError k) | Some v \<Rightarrow> Inr v)"
| "getitem_str (JList xs) k = Inl (TypeError ''list indices must be integers'')"
| "getitem_str (JStr s) k = Inl (TypeError ''string indices must be integers'')"
| "getitem_str j k = Inl (TypeError ''object is not subscriptable'')"

fun getitem_0 :: "json \<Rightarrow> exn + json" where
  "getitem_0 (JList []) = Inl (IndexError ''list index out of range'')"
| "getitem_0 (JList (x # xs)) = Inr x"
| "getitem_0 (JStr []) = Inl (IndexError ''string index out of range'')"
| "getitem_0 (JStr (c # cs)) = Inr (JStr [c])"
| "getitem_0 (JObj kvs) = Inl (KeyError ''0'')"
| "getitem_0 j = Inl (TypeError ''object is not subscriptable'')"

definition bind_exn :: "exn + 'a \<Rightarrow> ('a \<Rightarrow> exn + 'b) \<Rightarrow> exn + 'b" where
  "bind_exn x f = (case x of Inl e \<Rightarrow> Inl e | Inr v \<Rightarrow> f v)"

text \<open>Decimal digits of a status code, for the fallback message.\<close>

definition digit_char :: "nat \<Rightarrow> char" where
  "digit_char d = ''0123456789'' ! d"

fun str_nat :: "nat \<Rightarrow> string" where
  "str_nat n =
     (if n < 10 then [digit_char n] else str_nat (n div 10) @ [digit_char (n mod 10)])"

definition str_int :: "int \<Rightarrow> string" where
  "str_int i = (if i < 0 then CHR ''-'' # str_nat (nat (- i)) else str_nat (nat i))"

definition error_result :: "json \<Rightarrow> json" where
  "error_result msg = JObj [(''error'', msg)]"

text \<open>The branch \<open>if response.status_code != 200\<close>; an exception leaves through \<open>Inl\<close>.\<close>

definition status_error :: "response \<Rightarrow> exn + json" where
  "status_error r =
     (case body r of
        None \<Rightarrow> Inl JSONDecodeError
      | Some error_data \<Rightarrow>
          bind_exn (py_in ''errors'' error_data) (\<lambda>has_errors.
            if has_errors then
              bind_exn (getitem_str error_data ''errors'') (\<lambda>errors.
              bind_exn (getitem_0 errors) (\<lambda>first.
              bind_exn (getitem_str first ''message'') (\<lambda>msg. Inr (error_result msg))))
            else
              bind_exn (py_in ''error'' error_data) (\<lambda>has_error.
                if has_error then
                  bind_exn (getitem_str error_data ''error'') (\<lambda>err.
                  bind_exn (getitem_str err ''message'') (\<lambda>msg. Inr (error_result msg)))
                else
                  Inr (error_result (JStr (''API returned status code '' @
                         str_int (status_code r) @ '': '' @ text_of r))))))"

text \<open>
  The code after the rate-limit block: an error result for a status other than 200,
  otherwise the parsed body. \<open>raise_for_status\<close> does nothing on status 200.
\<close>

definition after_rate_limit :: "response \<Rightarrow> exn + json" where
  "after_rate_limit r =
     (if status_code r \<noteq> 200 then status_error r
      else (case body r of None \<Rightarrow> Inl JSONDecodeError | Some j \<Rightarrow> Inr j))"

text \<open>\<open>int(datetime.now().timestamp())\<close>: whole seconds, truncated towards zero.\<close>

definition timestamp_int :: "datetime \<Rightarrow> int" where
  "timestamp_int now = (if 0 \<le> now then now div 1000000 else - ((- now) div 1000000))"

text \<open>
  One pass through the body of \<open>_make_request\<close> up to the recursive call: either the
  call sleeps and retries, or it returns. \<open>except Exception\<close> turns every exception into
  an error result.
\<close>

datatype step = Retry int | Return json

definition request_step :: "exn + response \<Rightarrow> datetime \<Rightarrow> step" where
  "request_step outcome now =
     (case outcome of
        Inl e \<Rightarrow> Return (error_result (JStr (str_exn e)))
      | Inr r \<Rightarrow>
          (let finish = (case after_rate_limit r of
                           Inl e \<Rightarrow> Return (error_result (JStr (str_exn e)))
                         | Inr j \<Rightarrow> Return j)
           in if status_code r = 429 then
                (case rate_limit_reset r of
                   NonNumeric \<Rightarrow>
                     Return (error_result (JStr (str_exn (ValueError ''invalid literal for int()''))))
                 | h \<Rightarrow>
                     (let reset_time = (case h of Numeric t \<Rightarrow> t | _ \<Rightarrow> 0);
                          current_time = timestamp_int now;
                          sleep_time = max (reset_time - current_time) 0
                      in if sleep_time > 0 then Retry sleep_time else finish))
              else finish))"

text \<open>
  The recursion of \<open>_make_request\<close>. The server is the outcome of the \<open>n\<close>-th request
  (a response, or the exception the HTTP call raises) and the clock is the time read
  while handling it. The retry is unbounded in the source, so the function is partial:
  \<open>None\<close> is a call that never returns. The second component of the result lists the
  \<open>time.sleep\<close> durations of the call, in order.
\<close>

partial_function (option) make_request ::
  "(nat \<Rightarrow> exn + response) \<Rightarrow> (nat \<Rightarrow> datetime) \<Rightarrow> nat \<Rightarrow> int list \<Rightarrow> (json \<times> int list) option" where
  "make_request server clock n slept =
     (case request_step (server n) (clock n) of
        Retry sleep_time \<Rightarrow> make_request server clock (Suc n) (slept @ [sleep_time])
      | Return j \<Rightarrow> Some (j, slept))"

declare make_request.simps [code]

section \<open>Predicates and inputs used in the statements\<close>

text \<open>
  Every need of the enumeration has a value, and every value lies in \<open>[0, 100]\<close>: the
  invariant the data model states for the need pool.
\<close>

definition needs_defined :: "StateManager \<Rightarrow> bool" where
  "needs_defined s = list_all (\<lambda>n. needs s n \<noteq> None) all_needs"

definition needs_in_range :: "StateManager \<Rightarrow> bool" where
  "needs_in_range s =
     list_all (\<lambda>n. case needs s n of None \<Rightarrow> False | Some v \<Rightarrow> 0 \<le> v \<and> v \<le> 100) all_needs"

text \<open>The needs an effect list touches all have a value.\<close>

definition affected_defined :: "(NeedState \<times> real) list \<Rightarrow> StateManager \<Rightarrow> bool" where
  "affected_defined effects s = list_all (\<lambda>(n, m). needs s n \<noteq> None) effects"

text \<open>The state created at time \<open>t\<close> with every need set to \<open>v\<close>.\<close>

definition pool_at :: "real \<Rightarrow> datetime \<Rightarrow> StateManager" where
  "pool_at v t = (StateManager_init t)\<lparr>needs := (\<lambda>need. Some v)\<rparr>"

text \<open>
  The score as the specification writes it, \<open>\<Sum> m * (1 - value n / 100)\<close> over the
  \<open>(need, magnitude)\<close> pairs of an effect list, and the catalogue scored entry by entry
  in its own order. The functions of the source are compared with these below.
\<close>

definition spec_score :: "(NeedState \<rightharpoonup> real) \<Rightarrow> (NeedState \<times> real) list \<Rightarrow> real" where
  "spec_score nd effects = (\<Sum>(n, m) \<leftarrow> effects. m * (1 - the (nd n) / 100))"

definition scored :: "(NeedState \<rightharpoonup> real) \<Rightarrow> (ActionType \<times> real) list" where
  "scored nd = map (\<lambda>(a, effects). (a, spec_score nd effects)) initialize_action_effects"

text \<open>The elapsed interval that \<open>decay_needs\<close> computes, in hours.\<close>

definition hours_since :: "datetime \<Rightarrow> datetime \<Rightarrow> real" where
  "hours_since t0 now = total_seconds (now - t0) / 3600"

text \<open>
  A key of the stored \<open>needs\<close> object that is the value of a \<open>NeedState\<close> member, and a
  stored document with the given \<open>needs\<close> object, default metrics and time 0.
\<close>

definition known_key :: "string \<Rightarrow> bool" where
  "known_key k = (k \<in> set (map need_value all_needs))"

definition doc_with_needs :: "(string \<times> real) list \<Rightarrow> state_dict" where
  "doc_with_needs ns =
     \<lparr>sd_needs = ns,
      sd_metrics = model_dump (metrics (StateManager_init 0)),
      sd_last_action_time = 0\<rparr>"

text \<open>
  The API object of test_XEnvironment.py, whose three methods return a tweet id, and an
  API object whose methods return an error result.
\<close>

definition mock_api :: TwitterAPI where
  "mock_api =
     \<lparr>create_tweet = (\<lambda>kw. Inr [(''data'', JObj [(''id'', JStr ''123'')])]),
      like_tweet = (\<lambda>kw. Inr [(''data'', JObj [(''id'', JStr ''123'')])]),
      follow_user = Some (\<lambda>kw. Inr [(''data'', JObj [(''id'', JStr ''123'')])])\<rparr>"

definition failing_api :: "string \<Rightarrow> TwitterAPI" where
  "failing_api msg =
     \<lparr>create_tweet = (\<lambda>kw. Inr [(''error'', JStr msg)]),
      like_tweet = (\<lambda>kw. Inr [(''error'', JStr msg)]),
      follow_user = Some (\<lambda>kw. Inr [(''error'', JStr msg)])\<rparr>"

text \<open>
  The API call of an action failed: \<open>_perform_api_action\<close> raised, or returned a result
  with an \<open>error\<close> key.
\<close>

definition api_failed :: "TwitterAPI \<Rightarrow> ActionType \<Rightarrow> kwargs \<Rightarrow> bool" where
  "api_failed api action kw =
     (case perform_api_action api action kw of Inl e \<Rightarrow> True | Inr r \<Rightarrow> error_in r)"

text \<open>The state after loading a file that stores the need \<open>engagement\<close> only.\<close>

definition engagement_only :: StateManager where
  "engagement_only =
     snd (load_state 0 (Some (Doc (doc_with_needs [(''engagement'', 40)]))) (StateManager_init 0))"

text \<open>
  A throttled response with reset time \<open>t\<close> (seconds since the epoch) and the empty
  JSON object as its body, a successful
  response with body \<open>j\<close>, and a server that throttles the first request and answers
  every later one successfully.
\<close>

definition throttled :: "int \<Rightarrow> response" where
  "throttled t =
     \<lparr>status_code = 429, rate_limit_reset = Numeric t,
      body = Some (JObj []), text_of = ''{}''\<rparr>"

definition ok_response :: "json \<Rightarrow> response" where
  "ok_response j = \<lparr>status_code = 200, rate_limit_reset = Missing, body = Some j, text_of = ''''\<rparr>"

definition throttled_once :: "int \<Rightarrow> json \<Rightarrow> nat \<Rightarrow> exn + response" where
  "throttled_once t j n = (if n = 0 then Inr (throttled t) else Inr (ok_response j))"

section \<open>Facts about the enumerations and the invariants\<close>

lemma all_needs_UNIV: "set all_needs = UNIV"
proof -
  have "n \<in> set all_needs" for n
    by (cases n) (simp_all add: all_needs_def)
  then show ?thesis by auto
qed

lemma needs_defined_iff: "needs_defined s \<longleftrightarrow> (\<forall>n. needs s n \<noteq> None)"
  by (simp add: needs_defined_def list_all_iff all_needs_UNIV)

lemma needs_in_range_iff:
  "needs_in_range s \<longleftrightarrow> (\<forall>n. \<exists>v. needs s n = Some v \<and> 0 \<le> v \<and> v \<le> 100)"
proof -
  have "(case x of None \<Rightarrow> False | Some v \<Rightarrow> 0 \<le> v \<and> v \<le> 100) \<longleftrightarrow>
        (\<exists>v. x = Some v \<and> 0 \<le> v \<and> v \<le> 100)" for x :: "real option"
    by (cases x) auto
  then show ?thesis
    by (simp add: needs_in_range_def list_all_iff all_needs_UNIV)
qed

lemma needs_in_range_defined: "needs_in_range s \<Longrightarrow> needs_defined s"
  by (auto simp: needs_in_range_iff needs_defined_iff)

lemma hours_nonneg: "t0 \<le> now \<Longrightarrow> 0 \<le> total_seconds (now - t0) / 3600"
  by (simp add: total_seconds_def)

section \<open>Properties of decay\<close>

lemma decay_loop_fields:
  "metrics (snd (decay_loop h rs s)) = metrics s \<and>
   last_action_time (snd (decay_loop h rs s)) = last_action_time s"
  by (induction h rs s rule: decay_loop.induct) (auto split: option.splits)

lemma decay_loop_ok:
  "\<forall>n \<in> fst ` set rs. needs s n \<noteq> None \<Longrightarrow> fst (decay_loop h rs s) = Inr ()"
proof (induction h rs s rule: decay_loop.induct)
  case (1 h s)
  then show ?case by simp
next
  case (2 h need rate rest s)
  then obtain v where v: "needs s need = Some v" by auto
  have "\<forall>n \<in> fst ` set rest.
          needs (s\<lparr>needs := (needs s)(need \<mapsto> max 0 (v - rate * h))\<rparr>) n \<noteq> None"
    using 2(2) by auto
  with 2(1)[OF v] v show ?case by simp
qed

lemma decay_loop_needs:
  "distinct (map fst rs) \<Longrightarrow> \<forall>n \<in> fst ` set rs. needs s n \<noteq> None \<Longrightarrow>
   needs (snd (decay_loop h rs s)) n =
     (case map_of rs n of
        None \<Rightarrow> needs s n
      | Some r \<Rightarrow> Some (max 0 (the (needs s n) - r * h)))"
proof (induction h rs s rule: decay_loop.induct)
  case (1 h s)
  then show ?case by simp
next
  case (2 h need rate rest s)
  then obtain v where v: "needs s need = Some v" by auto
  let ?s = "s\<lparr>needs := (needs s)(need \<mapsto> max 0 (v - rate * h))\<rparr>"
  have d: "distinct (map fst rest)" and nin: "need \<notin> fst ` set rest"
    using 2(2) by auto
  have def: "\<forall>n \<in> fst ` set rest. needs ?s n \<noteq> None"
    using 2(3) by auto
  have ih: "needs (snd (decay_loop h rest ?s)) n =
     (case map_of rest n of
        None \<Rightarrow> needs ?s n
      | Some r \<Rightarrow> Some (max 0 (the (needs ?s n) - r * h)))"
    using 2(1)[OF v refl d def] .
  have none: "map_of rest need = None"
    using nin by (simp add: map_of_eq_None_iff)
  show ?case
  proof (cases "n = need")
    case True
    with ih none v show ?thesis by simp
  next
    case False
    with ih v show ?thesis by (simp split: option.splits)
  qed
qed

lemma decay_rates_distinct: "distinct (map fst decay_rates)"
  by (simp add: decay_rates_def)

lemma decay_rates_keys: "fst ` set decay_rates = UNIV"
proof -
  have "n \<in> fst ` set decay_rates" for n
    by (cases n) (simp_all add: decay_rates_def)
  then show ?thesis by auto
qed

lemma decay_rates_pos: "map_of decay_rates n = Some r \<Longrightarrow> 0 < r"
  by (cases n) (auto simp: decay_rates_def)

lemma decay_rates_total: "map_of decay_rates n \<noteq> None"
  by (cases n) (simp_all add: decay_rates_def)

lemma decay_needs_ok:
  "\<forall>n. needs s n \<noteq> None \<Longrightarrow> fst (decay_needs now s) = Inr ()"
  by (simp add: decay_needs_def Let_def decay_loop_ok)

lemma decay_needs_needs:
  assumes "\<forall>n. needs s n \<noteq> None" and "map_of decay_rates n = Some r"
  shows "needs (snd (decay_needs now s)) n =
           Some (max 0 (the (needs s n) - r * (total_seconds (now - last_action_time s) / 3600)))"
  using assms decay_loop_needs[OF decay_rates_distinct, of s _ n]
  by (simp add: decay_needs_def Let_def)

lemma decay_needs_fields:
  "metrics (snd (decay_needs now s)) = metrics s \<and>
   last_action_time (snd (decay_needs now s)) = last_action_time s"
  by (simp add: decay_needs_def Let_def decay_loop_fields)

section \<open>C1: the value a decay leaves\<close>

text \<open>
  Claim C1. For a need \<open>n\<close> with value \<open>v\<close> in \<open>[0, 100]\<close>, decay rate \<open>r\<close> and \<open>h \<ge> 0\<close> hours
  elapsed since \<open>last_action_time\<close>, \<open>decay_needs\<close> returns normally and sets the value of
  \<open>n\<close> to \<open>max 0 (v - r * h)\<close>; the rate is positive, the new value is never above the old
  one, and with \<open>h = 0\<close> the state is left as it was.
\<close>

theorem decay_needs_max:
  assumes valid: "needs_in_range s"
    and time: "last_action_time s \<le> now"
    and h: "h = total_seconds (now - last_action_time s) / 3600"
    and v: "needs s n = Some v"
    and r: "map_of decay_rates n = Some r"
  shows "fst (decay_needs now s) = Inr () \<and>
         0 < r \<and> 0 \<le> h \<and>
         needs (snd (decay_needs now s)) n = Some (max 0 (v - r * h)) \<and>
         max 0 (v - r * h) \<le> v \<and>
         (h = 0 \<longrightarrow> snd (decay_needs now s) = s)"
proof -
  have def: "\<forall>m. needs s m \<noteq> None"
    using valid needs_in_range_defined needs_defined_iff by blast
  have ok: "fst (decay_needs now s) = Inr ()"
    using def by (rule decay_needs_ok)
  have rpos: "0 < r" using r by (rule decay_rates_pos)
  have hpos: "0 \<le> h" unfolding h using time by (rule hours_nonneg)
  have val: "needs (snd (decay_needs now s)) n = Some (max 0 (v - r * h))"
    using decay_needs_needs[OF def r, of now] v unfolding h by simp
  have v0: "0 \<le> v"
    using valid v unfolding needs_in_range_iff by (metis option.inject)
  have "0 \<le> r * h" using rpos hpos by simp
  then have le: "max 0 (v - r * h) \<le> v" using v0 by simp
  have noop: "snd (decay_needs now s) = s" if h0: "h = 0"
  proof -
    have z: "total_seconds (now - last_action_time s) / 3600 = 0"
      using h h0 by simp
    have "needs (snd (decay_needs now s)) m = needs s m" for m
    proof -
      obtain rm where rm: "map_of decay_rates m = Some rm"
        using decay_rates_total[of m] by auto
      obtain vm where vm: "needs s m = Some vm" "0 \<le> vm"
        using valid by (auto simp: needs_in_range_iff)
      show ?thesis
        using decay_needs_needs[OF def rm, of now] vm unfolding z by simp
    qed
    then have "needs (snd (decay_needs now s)) = needs s" by (rule ext)
    then show ?thesis
      using decay_needs_fields[of now s] by (simp add: StateManager.equality)
  qed
  from ok rpos hpos val le noop show ?thesis by blast
qed

text \<open>
  The fresh state created at time 0, decayed two hours later: engagement (rate 0.5) goes
  from 100 to 99; decayed at time 0 it stays at 100.
\<close>

theorem decay_needs_max_witness:
  "needs_in_range (StateManager_init 0) \<and>
   last_action_time (StateManager_init 0) \<le> 7200000000 \<and>
   fst (decay_needs 7200000000 (StateManager_init 0)) = Inr () \<and>
   needs (snd (decay_needs 7200000000 (StateManager_init 0))) ENGAGEMENT = Some 99 \<and>
   needs (snd (decay_needs 0 (StateManager_init 0))) ENGAGEMENT = Some 100"
proof -
  have a: "needs_in_range (StateManager_init 0)"
    by (simp add: needs_in_range_def StateManager_init_def all_needs_def)
  have b: "last_action_time (StateManager_init 0) \<le> 7200000000"
    by (simp add: StateManager_init_def)
  have c: "(2::real) = total_seconds (7200000000 - last_action_time (StateManager_init 0)) / 3600"
    by (simp add: StateManager_init_def total_seconds_def)
  have d: "needs (StateManager_init 0) ENGAGEMENT = Some 100"
    by (simp add: StateManager_init_def)
  have e: "map_of decay_rates ENGAGEMENT = Some (1/2)"
    by (simp add: decay_rates_def)
  have b0: "last_action_time (StateManager_init 0) \<le> 0"
    by (simp add: StateManager_init_def)
  have c0: "(0::real) = total_seconds (0 - last_action_time (StateManager_init 0)) / 3600"
    by (simp add: StateManager_init_def total_seconds_def)
  show ?thesis
    using a b d decay_needs_max[OF a b c d e] decay_needs_max[OF a b0 c0 d e] by simp
qed

section \<open>Facts about applying effects\<close>

lemma apply_effects_fields:
  "metrics (snd (apply_effects es s)) = metrics s \<and>
   last_action_time (snd (apply_effects es s)) = last_action_time s"
  by (induction es s rule: apply_effects.induct) (auto split: option.splits)

lemma apply_effects_ok:
  "\<forall>n \<in> fst ` set es. needs s n \<noteq> None \<Longrightarrow> fst (apply_effects es s) = Inr ()"
proof (induction es s rule: apply_effects.induct)
  case (1 s)
  then show ?case by simp
next
  case (2 need effect rest s)
  then obtain v where v: "needs s need = Some v" by auto
  have "\<forall>n \<in> fst ` set rest.
          needs (s\<lparr>needs := (needs s)(need \<mapsto> min 100 (v + effect))\<rparr>) n \<noteq> None"
    using 2(2) by auto
  with 2(1)[OF v] v show ?case by simp
qed

lemma apply_effects_needs:
  "distinct (map fst es) \<Longrightarrow> \<forall>n \<in> fst ` set es. needs s n \<noteq> None \<Longrightarrow>
   needs (snd (apply_effects es s)) n =
     (case map_of es n of
        None \<Rightarrow> needs s n
      | Some m \<Rightarrow> Some (min 100 (the (needs s n) + m)))"
proof (induction es s rule: apply_effects.induct)
  case (1 s)
  then show ?case by simp
next
  case (2 need effect rest s)
  then obtain v where v: "needs s need = Some v" by auto
  let ?s = "s\<lparr>needs := (needs s)(need \<mapsto> min 100 (v + effect))\<rparr>"
  have d: "distinct (map fst rest)" and nin: "need \<notin> fst ` set rest"
    using 2(2) by auto
  have def: "\<forall>n \<in> fst ` set rest. needs ?s n \<noteq> None"
    using 2(3) by auto
  have ih: "needs (snd (apply_effects rest ?s)) n =
     (case map_of rest n of
        None \<Rightarrow> needs ?s n
      | Some m \<Rightarrow> Some (min 100 (the (needs ?s n) + m)))"
    using 2(1)[OF v d def] .
  have none: "map_of rest need = None"
    using nin by (simp add: map_of_eq_None_iff)
  show ?case
  proof (cases "n = need")
    case True
    with ih none v show ?thesis by simp
  next
    case False
    with ih v show ?thesis by (simp split: option.splits)
  qed
qed

lemma catalog_effects:
  "map_of initialize_action_effects action = Some effects \<Longrightarrow>
   distinct (map fst effects) \<and> (\<forall>n m. map_of effects n = Some m \<longrightarrow> 0 < m)"
  by (cases action) (auto simp: initialize_action_effects_def split: if_splits)

lemma affected_defined_iff:
  "affected_defined es s \<longleftrightarrow> (\<forall>n \<in> fst ` set es. needs s n \<noteq> None)"
  by (auto simp: affected_defined_def list_all_iff)

section \<open>C6: applying the effects of an action\<close>

text \<open>
  Claim C6. For an action with catalogue effects whose affected needs all have a value,
  \<open>_update_state_from_action\<close> returns normally, sets each affected need to
  \<open>min 100 (value + magnitude)\<close> and leaves the other needs alone, so no affected need
  ends above 100 and a pool in \<open>[0, 100]\<close> stays there; it sets \<open>last_action_time\<close> to
  the current time; and when every affected need is at 100 the need values are
  unchanged while \<open>last_action_time\<close> is still set.
\<close>

theorem update_state_min:
  assumes cat: "map_of initialize_action_effects action = Some effects"
    and def: "affected_defined effects s"
    and s': "s' = snd (update_state_from_action now action s)"
  shows "fst (update_state_from_action now action s) = Inr () \<and>
         last_action_time s' = now \<and>
         metrics s' = metrics s \<and>
         (\<forall>n. needs s' n =
            (case map_of effects n of
               None \<Rightarrow> needs s n
             | Some m \<Rightarrow> Some (min 100 (the (needs s n) + m)))) \<and>
         (\<forall>n v. map_of effects n \<noteq> None \<and> needs s' n = Some v \<longrightarrow> v \<le> 100) \<and>
         (needs_in_range s \<longrightarrow> needs_in_range s') \<and>
         ((\<forall>n. map_of effects n \<noteq> None \<longrightarrow> needs s n = Some 100) \<longrightarrow> needs s' = needs s)"
proof -
  have d: "distinct (map fst effects)" and pos: "\<And>n m. map_of effects n = Some m \<Longrightarrow> 0 < m"
    using catalog_effects[OF cat] by auto
  have def': "\<forall>n \<in> fst ` set effects. needs s n \<noteq> None"
    using def by (simp add: affected_defined_iff)
  obtain t where t: "apply_effects effects s = (Inr (), t)"
    using apply_effects_ok[OF def'] by (cases "apply_effects effects s") auto
  have upd: "update_state_from_action now action s = (Inr (), t\<lparr>last_action_time := now\<rparr>)"
    by (simp add: update_state_from_action_def cat t)
  have s'_eq: "s' = t\<lparr>last_action_time := now\<rparr>" using s' upd by simp
  have tn: "needs t n =
     (case map_of effects n of
        None \<Rightarrow> needs s n
      | Some m \<Rightarrow> Some (min 100 (the (needs s n) + m)))" for n
    using apply_effects_needs[OF d def', of n] t by simp
  have tf: "metrics t = metrics s"
    using apply_effects_fields[of effects s] t by simp
  have c1: "fst (update_state_from_action now action s) = Inr ()" using upd by simp
  have c2: "last_action_time s' = now" using s'_eq by simp
  have c3: "metrics s' = metrics s" using s'_eq tf by simp
  have c4: "\<forall>n. needs s' n =
            (case map_of effects n of
               None \<Rightarrow> needs s n
             | Some m \<Rightarrow> Some (min 100 (the (needs s n) + m)))"
    using s'_eq tn by simp
  have c5: "\<forall>n v. map_of effects n \<noteq> None \<and> needs s' n = Some v \<longrightarrow> v \<le> 100"
    using c4 by (auto split: option.splits)
  have c6: "needs_in_range s'" if r: "needs_in_range s"
    unfolding needs_in_range_iff
  proof
    fix n
    obtain v where v: "needs s n = Some v" "0 \<le> v" "v \<le> 100"
      using r unfolding needs_in_range_iff by blast
    show "\<exists>w. needs s' n = Some w \<and> 0 \<le> w \<and> w \<le> 100"
    proof (cases "map_of effects n")
      case None
      with c4 v show ?thesis by simp
    next
      case (Some m)
      with pos have "0 < m" by simp
      with c4 v Some show ?thesis by simp
    qed
  qed
  have c7: "needs s' = needs s" if a: "\<forall>n. map_of effects n \<noteq> None \<longrightarrow> needs s n = Some 100"
  proof (rule ext)
    fix n
    show "needs s' n = needs s n"
    proof (cases "map_of effects n")
      case None
      with c4 show ?thesis by simp
    next
      case (Some m)
      with pos have "0 < m" by simp
      moreover have "needs s n = Some 100" using a Some by simp
      ultimately show ?thesis using c4 Some by simp
    qed
  qed
  from c1 c2 c3 c4 c5 c6 c7 show ?thesis by blast
qed

text \<open>
  \<open>POST\<close> at time 5 on the pool with every need at 50 gives engagement 65, reach 60 and
  relevance 55; on the fresh pool at 100 it changes no value and sets the time.
\<close>

theorem update_state_min_witness:
  "map_of initialize_action_effects POST = Some [(ENGAGEMENT, 15), (REACH, 10), (RELEVANCE, 5)] \<and>
   affected_defined [(ENGAGEMENT, 15), (REACH, 10), (RELEVANCE, 5)] (pool_at 50 0) \<and>
   fst (update_state_from_action 5 POST (pool_at 50 0)) = Inr () \<and>
   needs (snd (update_state_from_action 5 POST (pool_at 50 0))) ENGAGEMENT = Some 65 \<and>
   needs (snd (update_state_from_action 5 POST (pool_at 50 0))) REACH = Some 60 \<and>
   needs (snd (update_state_from_action 5 POST (pool_at 50 0))) RELEVANCE = Some 55 \<and>
   needs (snd (update_state_from_action 5 POST (pool_at 50 0))) AUTHORITY = Some 50 \<and>
   last_action_time (snd (update_state_from_action 5 POST (pool_at 50 0))) = 5 \<and>
   needs (snd (update_state_from_action 5 POST (pool_at 100 0))) = needs (pool_at 100 0) \<and>
   last_action_time (snd (update_state_from_action 5 POST (pool_at 100 0))) = 5"
proof -
  let ?es = "[(ENGAGEMENT, 15), (REACH, 10), (RELEVANCE, 5)] :: (NeedState \<times> real) list"
  have a: "map_of initialize_action_effects POST = Some ?es"
    by (simp add: initialize_action_effects_def)
  have b: "affected_defined ?es (pool_at 50 0)"
    by (simp add: affected_defined_def pool_at_def)
  have c: "affected_defined ?es (pool_at 100 0)"
    by (simp add: affected_defined_def pool_at_def)
  have full: "\<forall>n. map_of ?es n \<noteq> None \<longrightarrow> needs (pool_at 100 0) n = Some 100"
    by (simp add: pool_at_def)
  note t50 = update_state_min[OF a b refl, of 5]
  note t100 = update_state_min[OF a c refl, of 5]
  have n50: "needs (snd (update_state_from_action 5 POST (pool_at 50 0))) n =
       (case map_of ?es n of
          None \<Rightarrow> needs (pool_at 50 0) n
        | Some m \<Rightarrow> Some (min 100 (the (needs (pool_at 50 0) n) + m)))" for n
    using t50 by blast
  have v: "needs (snd (update_state_from_action 5 POST (pool_at 50 0))) ENGAGEMENT = Some 65"
    "needs (snd (update_state_from_action 5 POST (pool_at 50 0))) REACH = Some 60"
    "needs (snd (update_state_from_action 5 POST (pool_at 50 0))) RELEVANCE = Some 55"
    "needs (snd (update_state_from_action 5 POST (pool_at 50 0))) AUTHORITY = Some 50"
    unfolding n50 by (simp_all add: pool_at_def)
  have same: "needs (snd (update_state_from_action 5 POST (pool_at 100 0))) = needs (pool_at 100 0)"
    using t100 full by blast
  from a b v same t50 t100 show ?thesis by blast
qed

section \<open>Facts about scoring and ranking\<close>

lemma utility_sum_eq:
  "\<forall>n \<in> fst ` set es. nd n \<noteq> None \<Longrightarrow>
   utility_sum nd es acc = Inr (acc + spec_score nd es)"
proof (induction nd es acc rule: utility_sum.induct)
  case (1 nd acc)
  then show ?case by (simp add: spec_score_def)
next
  case (2 nd need effect rest acc)
  then obtain v where v: "nd need = Some v" by auto
  have "\<forall>n \<in> fst ` set rest. nd n \<noteq> None" using 2(2) by auto
  with 2(1)[OF v] v show ?case by (simp add: spec_score_def)
qed

lemma score_actions_all:
  assumes "\<forall>n. nd n \<noteq> None"
  shows "score_actions nd all_actions [] = Inr (scored nd)"
proof -
  have u: "utility_sum nd es 0 = Inr (spec_score nd es)" for es
    using utility_sum_eq[of es nd 0] assms by simp
  show ?thesis
    by (simp add: all_actions_def scored_def initialize_action_effects_def u del: utility_sum.simps)
qed

lemma decay_loop_Inr_defined:
  "fst (decay_loop h rs s) = Inr () \<Longrightarrow> \<forall>n \<in> fst ` set rs. needs s n \<noteq> None"
proof (induction h rs s rule: decay_loop.induct)
  case (1 h s)
  then show ?case by simp
next
  case (2 h need rate rest s)
  show ?case
  proof (cases "needs s need")
    case None
    with 2(2) show ?thesis by simp
  next
    case (Some v)
    let ?s = "s\<lparr>needs := (needs s)(need \<mapsto> max 0 (v - rate * h))\<rparr>"
    have "fst (decay_loop h rest ?s) = Inr ()" using 2(2) Some by simp
    then have "\<forall>n \<in> fst ` set rest. needs ?s n \<noteq> None"
      using 2(1)[OF Some refl] by simp
    then have "\<forall>n \<in> fst ` set rest. needs s n \<noteq> None"
      using Some by (auto split: if_splits)
    with Some show ?thesis by simp
  qed
qed

lemma decay_needs_Inr_defined:
  "fst (decay_needs now s) = Inr () \<Longrightarrow> needs_defined s"
  using decay_loop_Inr_defined[of _ decay_rates s]
  by (simp add: decay_needs_def Let_def decay_rates_keys needs_defined_iff)

lemma decay_loop_defined:
  "\<forall>n. needs s n \<noteq> None \<Longrightarrow> needs (snd (decay_loop h rs s)) n \<noteq> None"
  by (induction h rs s rule: decay_loop.induct) (auto split: option.splits)

lemma decay_needs_defined:
  "needs_defined s \<Longrightarrow> needs (snd (decay_needs now s)) n \<noteq> None"
  by (simp add: decay_needs_def Let_def decay_loop_defined needs_defined_iff)

lemma get_available_actions_snd:
  "snd (get_available_actions now s) = snd (decay_needs now s)"
  by (simp add: get_available_actions_def split: prod.splits sum.splits)

lemma get_available_actions_eq:
  assumes "needs_defined s"
  shows "get_available_actions now s =
           (Inr (sorted_reverse snd (scored (needs (snd (decay_needs now s))))),
            snd (decay_needs now s))"
proof -
  obtain s' where d: "decay_needs now s = (Inr (), s')"
    using decay_needs_ok[of s now] assms
    by (cases "decay_needs now s") (auto simp: needs_defined_iff)
  have "\<forall>n. needs s' n \<noteq> None"
    using decay_needs_defined[OF assms, of now] d by simp
  then have "score_actions (needs s') all_actions [] = Inr (scored (needs s'))"
    by (rule score_actions_all)
  then show ?thesis by (simp add: get_available_actions_def d)
qed

lemma get_available_actions_Inr:
  assumes "get_available_actions now s = (Inr ranking, s')"
  shows "needs_defined s"
proof -
  have "fst (decay_needs now s) = Inr ()"
    using assms by (auto simp: get_available_actions_def split: prod.splits sum.splits)
  then show ?thesis by (rule decay_needs_Inr_defined)
qed

lemma set_sorted_reverse: "set (sorted_reverse k xs) = set xs"
  by (simp add: sorted_reverse_def)

lemma length_sorted_reverse: "length (sorted_reverse k xs) = length xs"
  by (simp add: sorted_reverse_def)

lemma distinct_fst_sorted_reverse:
  assumes "distinct (map fst xs)"
  shows "distinct (map fst (sorted_reverse k xs))"
proof -
  have "card (set (map fst (sorted_reverse k xs))) = card (set (map fst xs))"
    by (simp add: set_sorted_reverse)
  also have "\<dots> = length (map fst xs)" using assms by (rule distinct_card)
  also have "\<dots> = length (map fst (sorted_reverse k xs))"
    by (simp add: length_sorted_reverse)
  finally show ?thesis by (rule card_distinct)
qed

lemma map_of_sorted_reverse:
  assumes "distinct (map fst xs)"
  shows "map_of (sorted_reverse k xs) = map_of xs"
proof (rule ext)
  fix a
  show "map_of (sorted_reverse k xs) a = map_of xs a"
  proof (cases "map_of xs a")
    case None
    then have "a \<notin> fst ` set (sorted_reverse k xs)"
      by (simp add: map_of_eq_None_iff set_sorted_reverse)
    then have "map_of (sorted_reverse k xs) a = None"
      by (simp add: map_of_eq_None_iff)
    then show ?thesis using None by simp
  next
    case (Some u)
    then have "(a, u) \<in> set (sorted_reverse k xs)"
      by (simp add: set_sorted_reverse map_of_SomeD)
    then show ?thesis
      using Some distinct_fst_sorted_reverse[OF assms] by simp
  qed
qed

lemma scored_keys: "map fst (scored nd) = map fst initialize_action_effects"
  by (simp add: scored_def initialize_action_effects_def)

lemma scored_distinct: "distinct (map fst (scored nd))"
  by (simp add: scored_keys) (simp add: initialize_action_effects_def)

lemma map_of_scored:
  "map_of (scored nd) a = map_option (spec_score nd) (map_of initialize_action_effects a)"
  by (simp add: scored_def initialize_action_effects_def)

lemma spec_score_full:
  "\<forall>n \<in> fst ` set es. nd n = Some 100 \<Longrightarrow> spec_score nd es = 0"
  unfolding spec_score_def by (induction es) auto

section \<open>C4: the utility score of each catalogue action\<close>

text \<open>
  Claim C4. When every need has a value, \<open>get_available_actions\<close> returns a ranking in
  which each action of the catalogue occurs once, with the score
  \<open>\<Sum> m * (1 - value n / 100)\<close> over its effects, the values being those of the pool after
  the decay that the call performs; an action whose target needs are all at 100 scores
  0; and an action with no catalogue entry (\<open>QUOTE\<close>, \<open>RETWEET\<close>, \<open>SEARCH\<close>) does not
  occur in the ranking.
\<close>

theorem ranking_scores:
  assumes "needs_defined s"
    and "s' = snd (decay_needs now s)"
  shows "\<exists>ranking. get_available_actions now s = (Inr ranking, s') \<and>
           distinct (map fst ranking) \<and>
           (\<forall>a. map_of ranking a =
              map_option (\<lambda>effects. \<Sum>(n, m) \<leftarrow> effects. m * (1 - the (needs s' n) / 100))
                (map_of initialize_action_effects a)) \<and>
           (\<forall>a effects. map_of initialize_action_effects a = Some effects \<and>
               list_all (\<lambda>(n, m). needs s' n = Some 100) effects \<longrightarrow> map_of ranking a = Some 0) \<and>
           QUOTE \<notin> fst ` set ranking \<and> RETWEET \<notin> fst ` set ranking \<and>
           SEARCH \<notin> fst ` set ranking"
proof -
  let ?r = "sorted_reverse snd (scored (needs s'))"
  have g: "get_available_actions now s = (Inr ?r, s')"
    using get_available_actions_eq[OF assms(1), of now] assms(2) by simp
  have d: "distinct (map fst ?r)"
    using scored_distinct by (rule distinct_fst_sorted_reverse)
  have m: "map_of ?r a = map_option (spec_score (needs s')) (map_of initialize_action_effects a)" for a
    by (simp add: map_of_sorted_reverse[OF scored_distinct] map_of_scored)
  have m': "\<forall>a. map_of ?r a =
              map_option (\<lambda>effects. \<Sum>(n, m) \<leftarrow> effects. m * (1 - the (needs s' n) / 100))
                (map_of initialize_action_effects a)"
    using m unfolding spec_score_def by simp
  have z: "map_of ?r a = Some 0"
    if "map_of initialize_action_effects a = Some effects"
      and "list_all (\<lambda>(n, m). needs s' n = Some 100) effects" for a effects
  proof -
    have "\<forall>n \<in> fst ` set effects. needs s' n = Some 100"
      using that(2) by (auto simp: list_all_iff)
    then have "spec_score (needs s') effects = 0" by (rule spec_score_full)
    then show ?thesis using m[of a] that(1) by simp
  qed
  have k: "fst ` set ?r = fst ` set initialize_action_effects"
    using scored_keys[of "needs s'"] by (metis set_sorted_reverse set_map)
  have q: "QUOTE \<notin> fst ` set ?r" "RETWEET \<notin> fst ` set ?r" "SEARCH \<notin> fst ` set ?r"
    unfolding k by (simp_all add: initialize_action_effects_def)
  from g d m' z q show ?thesis by blast
qed

text \<open>
  The pool with every need at 50, ranked at the moment of its last action (no decay):
  \<open>POST\<close> scores \<open>30 \<times> 0.5 = 15\<close>, \<open>REPLY\<close> 12.5, \<open>LIKE\<close> 3.5, \<open>FOLLOW\<close> 7.5, and
  \<open>QUOTE\<close> is not ranked. On the pool at 100, \<open>POST\<close> scores 0.
\<close>

theorem ranking_scores_witness:
  "needs_defined (pool_at 50 0) \<and>
   (\<exists>ranking. get_available_actions 0 (pool_at 50 0) =
                 (Inr ranking, snd (decay_needs 0 (pool_at 50 0))) \<and>
      map_of ranking POST = Some 15 \<and> map_of ranking REPLY = Some (25 / 2) \<and>
      map_of ranking LIKE = Some (7 / 2) \<and> map_of ranking FOLLOW = Some (15 / 2) \<and>
      map_of ranking QUOTE = None) \<and>
   (\<exists>ranking. get_available_actions 0 (pool_at 100 0) =
                 (Inr ranking, snd (decay_needs 0 (pool_at 100 0))) \<and>
      map_of ranking POST = Some 0)"
proof -
  have a: "needs_defined (pool_at 50 0)"
    by (simp add: needs_defined_def pool_at_def all_needs_def)
  have b: "needs_defined (pool_at 100 0)"
    by (simp add: needs_defined_def pool_at_def all_needs_def)
  have n50: "needs (snd (decay_needs 0 (pool_at 50 0))) n = Some 50" for n
    by (cases n)
      (simp_all add: decay_needs_def decay_rates_def pool_at_def StateManager_init_def
         total_seconds_def)
  have n100: "needs (snd (decay_needs 0 (pool_at 100 0))) n = Some 100" for n
    by (cases n)
      (simp_all add: decay_needs_def decay_rates_def pool_at_def StateManager_init_def
         total_seconds_def)
  obtain r50 where r50:
    "get_available_actions 0 (pool_at 50 0) = (Inr r50, snd (decay_needs 0 (pool_at 50 0)))"
    "\<forall>a. map_of r50 a =
       map_option (\<lambda>effects. \<Sum>(n, m) \<leftarrow> effects.
           m * (1 - the (needs (snd (decay_needs 0 (pool_at 50 0))) n) / 100))
         (map_of initialize_action_effects a)"
    using ranking_scores[OF a refl, of 0] by blast
  obtain r100 where r100:
    "get_available_actions 0 (pool_at 100 0) = (Inr r100, snd (decay_needs 0 (pool_at 100 0)))"
    "\<forall>a. map_of r100 a =
       map_option (\<lambda>effects. \<Sum>(n, m) \<leftarrow> effects.
           m * (1 - the (needs (snd (decay_needs 0 (pool_at 100 0))) n) / 100))
         (map_of initialize_action_effects a)"
    using ranking_scores[OF b refl, of 0] by blast
  have v50: "map_of r50 POST = Some 15" "map_of r50 REPLY = Some (25 / 2)"
    "map_of r50 LIKE = Some (7 / 2)" "map_of r50 FOLLOW = Some (15 / 2)"
    "map_of r50 QUOTE = None"
    by (simp_all add: r50(2) n50 initialize_action_effects_def)
  have v100: "map_of r100 POST = Some 0"
    by (simp add: r100(2) n100 initialize_action_effects_def)
  from a r50(1) v50 r100(1) v100 show ?thesis by blast
qed

section \<open>Facts about the descending stable sort\<close>


lemma sorted_reverse_sorted: "sorted_wrt (\<lambda>x y. k y \<le> k x) (sorted_reverse k xs)"
proof -
  have "sorted (map k (sort_key k (rev xs)))" by (rule sorted_sort_key)
  then have "sorted_wrt (\<lambda>x y. k x \<le> k y) (sort_key k (rev xs))"
    by (simp add: sorted_map)
  then show ?thesis
    by (simp add: sorted_reverse_def sorted_wrt_rev)
qed

lemma sorted_reverse_stable:
  "filter (\<lambda>y. k y = c) (sorted_reverse k xs) = filter (\<lambda>y. k y = c) xs"
proof -
  have "filter (\<lambda>y. k y = c) (sorted_reverse k xs) =
        rev (filter (\<lambda>y. k y = c) (sort_key k (rev xs)))"
    by (simp add: sorted_reverse_def rev_filter)
  also have "\<dots> = rev (filter (\<lambda>y. k y = c) (rev xs))"
    by (simp add: sort_key_stable)
  also have "\<dots> = filter (\<lambda>y. k y = c) xs"
    by (simp add: rev_filter)
  finally show ?thesis .
qed

lemma filter_by_value:
  assumes "distinct (map fst xs)"
  shows "map fst (filter (\<lambda>p. snd p = c) xs) = filter (\<lambda>a. map_of xs a = Some c) (map fst xs)"
proof -
  have "map_of xs (fst p) = Some (snd p)" if "p \<in> set xs" for p
    using assms that by (cases p) simp
  then have "filter (\<lambda>p. snd p = c) xs = filter (\<lambda>p. map_of xs (fst p) = Some c) xs"
    by (intro filter_cong) auto
  then show ?thesis by (simp add: filter_map comp_def)
qed

section \<open>C5: the ranking is sorted and stable\<close>

text \<open>
  Claim C5. Every ranking that \<open>get_available_actions\<close> returns is in descending order
  of score, and the actions that share a score come in the order in which the catalogue
  lists them.
\<close>

theorem ranking_sorted_stable:
  assumes "get_available_actions now s = (Inr ranking, s')"
  shows "sorted_wrt (\<lambda>p q. snd q \<le> snd p) ranking \<and>
         (\<forall>c. map fst (filter (\<lambda>p. snd p = c) ranking) =
               filter (\<lambda>a. map_of ranking a = Some c) (map fst initialize_action_effects))"
proof -
  have def: "needs_defined s" using assms by (rule get_available_actions_Inr)
  have s': "s' = snd (decay_needs now s)"
    using get_available_actions_snd[of now s] assms by simp
  have r: "ranking = sorted_reverse snd (scored (needs s'))"
    using get_available_actions_eq[OF def, of now] assms s' by simp
  have srt: "sorted_wrt (\<lambda>p q. snd q \<le> snd p) ranking"
    unfolding r by (rule sorted_reverse_sorted)
  have st: "map fst (filter (\<lambda>p. snd p = c) ranking) =
            filter (\<lambda>a. map_of ranking a = Some c) (map fst initialize_action_effects)" for c
  proof -
    have "filter (\<lambda>p. snd p = c) ranking = filter (\<lambda>p. snd p = c) (scored (needs s'))"
      unfolding r by (rule sorted_reverse_stable)
    then have "map fst (filter (\<lambda>p. snd p = c) ranking) =
               filter (\<lambda>a. map_of (scored (needs s')) a = Some c) (map fst (scored (needs s')))"
      using filter_by_value[OF scored_distinct] by simp
    then show ?thesis
      by (simp add: r map_of_sorted_reverse[OF scored_distinct] scored_keys)
  qed
  from srt st show ?thesis by blast
qed

text \<open>
  The pool at 100 with reach lowered to 50, ranked with no decay: the catalogue order is
  \<open>POST\<close>, \<open>REPLY\<close>, \<open>LIKE\<close>, \<open>FOLLOW\<close>; \<open>POST\<close> and \<open>FOLLOW\<close> score 5, the other
  two 0, and the ranking is \<open>POST\<close>, \<open>FOLLOW\<close>, \<open>REPLY\<close>, \<open>LIKE\<close>.
\<close>

theorem ranking_sorted_stable_witness:
  "get_available_actions 0 ((pool_at 100 0)\<lparr>needs := (needs (pool_at 100 0))(REACH \<mapsto> 50)\<rparr>) =
     (Inr [(POST, 5), (FOLLOW, 5), (REPLY, 0), (LIKE, 0)],
      snd (decay_needs 0 ((pool_at 100 0)\<lparr>needs := (needs (pool_at 100 0))(REACH \<mapsto> 50)\<rparr>))) \<and>
   sorted_wrt (\<lambda>p q. snd q \<le> snd p) [(POST, 5::real), (FOLLOW, 5), (REPLY, 0), (LIKE, 0)] \<and>
   map fst (filter (\<lambda>p. snd p = 5) [(POST, 5::real), (FOLLOW, 5), (REPLY, 0), (LIKE, 0)]) =
     filter (\<lambda>a. map_of [(POST, 5::real), (FOLLOW, 5), (REPLY, 0), (LIKE, 0)] a = Some 5)
       (map fst initialize_action_effects) \<and>
   filter (\<lambda>a. map_of [(POST, 5::real), (FOLLOW, 5), (REPLY, 0), (LIKE, 0)] a = Some 5)
       (map fst initialize_action_effects) = [POST, FOLLOW] \<and>
   filter (\<lambda>a. map_of [(POST, 5::real), (FOLLOW, 5), (REPLY, 0), (LIKE, 0)] a = Some 0)
       (map fst initialize_action_effects) = [REPLY, LIKE]"
proof -
  let ?s = "(pool_at 100 0)\<lparr>needs := (needs (pool_at 100 0))(REACH \<mapsto> 50)\<rparr>"
  let ?r = "[(POST, 5::real), (FOLLOW, 5), (REPLY, 0), (LIKE, 0)]"
  have g: "get_available_actions 0 ?s = (Inr ?r, snd (decay_needs 0 ?s))"
    by (simp add: get_available_actions_def decay_needs_def decay_rates_def pool_at_def
        StateManager_init_def total_seconds_def all_actions_def initialize_action_effects_def
        sorted_reverse_def)
  have f5: "filter (\<lambda>a. map_of ?r a = Some 5) (map fst initialize_action_effects) = [POST, FOLLOW]"
    by (simp add: initialize_action_effects_def)
  have f0: "filter (\<lambda>a. map_of ?r a = Some 0) (map fst initialize_action_effects) = [REPLY, LIKE]"
    by (simp add: initialize_action_effects_def)
  from g f5 f0 ranking_sorted_stable[OF g] show ?thesis by blast
qed

section \<open>Facts about repeated decay\<close>

lemma decay_needs_value:
  assumes "needs_defined s" and "map_of decay_rates n = Some r" and "needs s n = Some v"
  shows "needs (snd (decay_needs now s)) n =
           Some (max 0 (v - r * hours_since (last_action_time s) now))"
  using decay_needs_needs[of s n r now] assms
  by (simp add: needs_defined_iff hours_since_def)

lemma decay_needs_keeps_defined:
  "needs_defined s \<Longrightarrow> needs_defined (snd (decay_needs now s))"
  using decay_needs_defined[of s now] by (simp add: needs_defined_iff)

lemma decay_needs_twice:
  assumes "needs_defined s" and "map_of decay_rates n = Some r" and "needs s n = Some v"
  shows "needs (snd (decay_needs t2 (snd (decay_needs t1 s)))) n =
           Some (max 0 (max 0 (v - r * hours_since (last_action_time s) t1)
                        - r * hours_since (last_action_time s) t2))"
proof -
  let ?s1 = "snd (decay_needs t1 s)"
  have d1: "needs_defined ?s1" using assms(1) by (rule decay_needs_keeps_defined)
  have v1: "needs ?s1 n = Some (max 0 (v - r * hours_since (last_action_time s) t1))"
    using assms by (rule decay_needs_value)
  have t: "last_action_time ?s1 = last_action_time s"
    using decay_needs_fields[of t1 s] by simp
  show ?thesis
    using decay_needs_value[OF d1 assms(2) v1, of t2] t by simp
qed

section \<open>C10: ranking the actions decays the pool\<close>

text \<open>
  Claim C10. \<open>get_available_actions\<close> is not a read-only query: the state it leaves is
  the state after \<open>decay_needs\<close> for the interval since \<open>last_action_time\<close>, the scores
  are computed from that decayed pool, and \<open>last_action_time\<close> stays as it was. So a
  positive need is strictly lower after a call made later than the last action, and a
  second call with no action in between decays the already decayed value again, by the
  whole interval since the same \<open>last_action_time\<close>.
\<close>

theorem get_available_actions_mutates:
  assumes "needs_in_range s"
    and "last_action_time s < t1" and "last_action_time s < t2"
    and "needs s n = Some v" and "0 < v"
    and "map_of decay_rates n = Some r"
    and "h1 = hours_since (last_action_time s) t1"
    and "h2 = hours_since (last_action_time s) t2"
    and "s1 = snd (get_available_actions t1 s)"
    and "s2 = snd (get_available_actions t2 s1)"
  shows "s1 = snd (decay_needs t1 s) \<and>
         fst (get_available_actions t1 s) = Inr (sorted_reverse snd (scored (needs s1))) \<and>
         needs s1 n = Some (max 0 (v - r * h1)) \<and>
         max 0 (v - r * h1) < v \<and>
         last_action_time s1 = last_action_time s \<and>
         s2 = snd (decay_needs t2 (snd (decay_needs t1 s))) \<and>
         needs s2 n = Some (max 0 (max 0 (v - r * h1) - r * h2)) \<and>
         (0 < max 0 (v - r * h1) \<longrightarrow>
            max 0 (max 0 (v - r * h1) - r * h2) < max 0 (v - r * h1))"
proof -
  have def: "needs_defined s" using assms(1) by (rule needs_in_range_defined)
  have c1: "s1 = snd (decay_needs t1 s)"
    using assms(9) by (simp add: get_available_actions_snd)
  have c2: "fst (get_available_actions t1 s) = Inr (sorted_reverse snd (scored (needs s1)))"
    using get_available_actions_eq[OF def, of t1] c1 by simp
  have c3: "needs s1 n = Some (max 0 (v - r * h1))"
    unfolding c1 assms(7) using def assms(6) assms(4) by (rule decay_needs_value)
  have rpos: "0 < r" using assms(6) by (rule decay_rates_pos)
  have h1pos: "0 < h1" using assms(2) by (simp add: assms(7) hours_since_def total_seconds_def)
  have h2pos: "0 < h2" using assms(3) by (simp add: assms(8) hours_since_def total_seconds_def)
  have p1: "0 < r * h1" and p2: "0 < r * h2" using rpos h1pos h2pos by simp_all
  have c4: "max 0 (v - r * h1) < v" using p1 assms(5) by simp
  have c5: "last_action_time s1 = last_action_time s"
    unfolding c1 using decay_needs_fields[of t1 s] by simp
  have c6: "s2 = snd (decay_needs t2 (snd (decay_needs t1 s)))"
    using assms(10) c1 by (simp add: get_available_actions_snd)
  have c7: "needs s2 n = Some (max 0 (max 0 (v - r * h1) - r * h2))"
    unfolding c6 assms(7) assms(8) using def assms(6) assms(4) by (rule decay_needs_twice)
  have c8: "0 < max 0 (v - r * h1) \<longrightarrow>
            max 0 (max 0 (v - r * h1) - r * h2) < max 0 (v - r * h1)"
    using p2 unfolding max_def by (auto split: if_splits)
  from c1 c2 c3 c4 c5 c6 c7 c8 show ?thesis by blast
qed

text \<open>
  The fresh pool created at time 0, ranked after one hour and again after two: engagement
  (rate 0.5) is 99.5 after the first call and 98.5 after the second.
\<close>

theorem get_available_actions_mutates_witness:
  "needs_in_range (pool_at 100 0) \<and>
   needs (pool_at 100 0) ENGAGEMENT = Some 100 \<and>
   needs (snd (get_available_actions 3600000000 (pool_at 100 0))) ENGAGEMENT = Some (199 / 2) \<and>
   needs (snd (get_available_actions 7200000000
            (snd (get_available_actions 3600000000 (pool_at 100 0))))) ENGAGEMENT = Some (197 / 2)"
proof -
  have a: "needs_in_range (pool_at 100 0)"
    by (simp add: needs_in_range_def pool_at_def all_needs_def)
  have t1: "last_action_time (pool_at 100 0) < 3600000000"
    and t2: "last_action_time (pool_at 100 0) < 7200000000"
    by (simp_all add: pool_at_def StateManager_init_def)
  have v: "needs (pool_at 100 0) ENGAGEMENT = Some 100"
    by (simp add: pool_at_def)
  have r: "map_of decay_rates ENGAGEMENT = Some (1 / 2)"
    by (simp add: decay_rates_def)
  have h1: "1 = hours_since (last_action_time (pool_at 100 0)) 3600000000"
    and h2: "2 = hours_since (last_action_time (pool_at 100 0)) 7200000000"
    by (simp_all add: hours_since_def total_seconds_def pool_at_def StateManager_init_def)
  have p: "(0::real) < 100" by simp
  note T = get_available_actions_mutates[OF a t1 t2 v p r h1 h2 refl refl]
  have x1: "needs (snd (get_available_actions 3600000000 (pool_at 100 0))) ENGAGEMENT =
              Some (max 0 (100 - 1 / 2 * 1))"
    using T by blast
  have x2: "needs (snd (get_available_actions 7200000000
              (snd (get_available_actions 3600000000 (pool_at 100 0))))) ENGAGEMENT =
              Some (max 0 (max 0 (100 - 1 / 2 * 1) - 1 / 2 * 2))"
    using T by blast
  from a v x1 x2 show ?thesis by simp
qed

section \<open>C7: two decays in succession\<close>

text \<open>
  Claim C7 says that two decays in succession, with no action in between, leave every
  need where a single decay at the later time leaves it. The code subtracts from the
  value it finds: on the fresh pool created at time 0, decays after one hour and after
  two hours leave engagement at 98.5, a single decay after two hours at 99.
\<close>

theorem decay_twice_counterexample:
  "needs (snd (decay_needs 7200000000 (snd (decay_needs 3600000000 (pool_at 100 0))))) ENGAGEMENT
     = Some (197 / 2) \<and>
   needs (snd (decay_needs 7200000000 (pool_at 100 0))) ENGAGEMENT = Some 99 \<and>
   needs (snd (decay_needs 7200000000 (snd (decay_needs 3600000000 (pool_at 100 0))))) ENGAGEMENT
     \<noteq> needs (snd (decay_needs 7200000000 (pool_at 100 0))) ENGAGEMENT"
proof -
  have d: "needs_defined (pool_at 100 0)"
    by (simp add: needs_defined_def pool_at_def all_needs_def)
  have v: "needs (pool_at 100 0) ENGAGEMENT = Some 100"
    by (simp add: pool_at_def)
  have r: "map_of decay_rates ENGAGEMENT = Some (1 / 2)"
    by (simp add: decay_rates_def)
  have h: "hours_since (last_action_time (pool_at 100 0)) 3600000000 = 1"
    "hours_since (last_action_time (pool_at 100 0)) 7200000000 = 2"
    by (simp_all add: hours_since_def total_seconds_def pool_at_def StateManager_init_def)
  have two: "needs (snd (decay_needs 7200000000 (snd (decay_needs 3600000000 (pool_at 100 0)))))
               ENGAGEMENT = Some (197 / 2)"
    using decay_needs_twice[OF d r v, of 7200000000 3600000000] by (simp add: h)
  have one: "needs (snd (decay_needs 7200000000 (pool_at 100 0))) ENGAGEMENT = Some 99"
    using decay_needs_value[OF d r v, of 7200000000] by (simp add: h)
  from two one show ?thesis by simp
qed

text \<open>
  Claim C7 as amended. \<open>decay_needs\<close> leaves \<open>last_action_time\<close> as it is, so every
  call measures its interval from the same baseline, and it subtracts
  \<open>rate * hours\<close> from the value it finds, floored at 0. A decay at \<open>t1\<close> followed by one
  at \<open>t2\<close> leaves a need at \<open>max 0 (max 0 (v - r * h1) - r * h2)\<close>; this is never above the
  value \<open>max 0 (v - r * h2)\<close> of a single decay at \<open>t2\<close>, and equal to it exactly when the
  first decay covered no time or the single decay already reaches 0.
\<close>

theorem decay_twice_accumulates:
  assumes "needs_in_range s"
    and "last_action_time s \<le> t1" and "last_action_time s \<le> t2"
    and "needs s n = Some v"
    and "map_of decay_rates n = Some r"
    and "h1 = hours_since (last_action_time s) t1"
    and "h2 = hours_since (last_action_time s) t2"
  shows "last_action_time (snd (decay_needs t1 s)) = last_action_time s \<and>
         needs (snd (decay_needs t2 s)) n = Some (max 0 (v - r * h2)) \<and>
         needs (snd (decay_needs t2 (snd (decay_needs t1 s)))) n =
           Some (max 0 (max 0 (v - r * h1) - r * h2)) \<and>
         max 0 (max 0 (v - r * h1) - r * h2) \<le> max 0 (v - r * h2) \<and>
         (max 0 (max 0 (v - r * h1) - r * h2) = max 0 (v - r * h2) \<longleftrightarrow> h1 = 0 \<or> v \<le> r * h2)"
proof -
  have def: "needs_defined s" using assms(1) by (rule needs_in_range_defined)
  have c1: "last_action_time (snd (decay_needs t1 s)) = last_action_time s"
    using decay_needs_fields[of t1 s] by simp
  have c2: "needs (snd (decay_needs t2 s)) n = Some (max 0 (v - r * h2))"
    unfolding assms(7) using def assms(5) assms(4) by (rule decay_needs_value)
  have c3: "needs (snd (decay_needs t2 (snd (decay_needs t1 s)))) n =
           Some (max 0 (max 0 (v - r * h1) - r * h2))"
    unfolding assms(6) assms(7) using def assms(5) assms(4) by (rule decay_needs_twice)
  have rpos: "0 < r" using assms(5) by (rule decay_rates_pos)
  have v0: "0 \<le> v"
    using assms(1) assms(4) unfolding needs_in_range_iff by (metis option.inject)
  have h1: "0 \<le> h1" using assms(2) by (simp add: assms(6) hours_since_def total_seconds_def)
  have h2: "0 \<le> h2" using assms(3) by (simp add: assms(7) hours_since_def total_seconds_def)
  have p1: "0 \<le> r * h1" and p2: "0 \<le> r * h2" using rpos h1 h2 by simp_all
  have z: "r * h1 = 0 \<longleftrightarrow> h1 = 0" using rpos by simp
  have c4: "max 0 (max 0 (v - r * h1) - r * h2) \<le> max 0 (v - r * h2)"
    using p1 p2 v0 unfolding max_def by (auto split: if_splits)
  have "max 0 (max 0 (v - r * h1) - r * h2) = max 0 (v - r * h2) \<longleftrightarrow> r * h1 = 0 \<or> v \<le> r * h2"
    using p1 p2 v0 unfolding max_def by (auto split: if_splits)
  then have c5: "max 0 (max 0 (v - r * h1) - r * h2) = max 0 (v - r * h2) \<longleftrightarrow> h1 = 0 \<or> v \<le> r * h2"
    using z by blast
  from c1 c2 c3 c4 c5 show ?thesis by blast
qed

text \<open>The same pool and times as in the counterexample.\<close>

theorem decay_twice_accumulates_witness:
  "needs_in_range (pool_at 100 0) \<and>
   last_action_time (snd (decay_needs 3600000000 (pool_at 100 0))) = 0 \<and>
   needs (snd (decay_needs 7200000000 (pool_at 100 0))) ENGAGEMENT = Some 99 \<and>
   needs (snd (decay_needs 7200000000 (snd (decay_needs 3600000000 (pool_at 100 0))))) ENGAGEMENT
     = Some (197 / 2)"
proof -
  have a: "needs_in_range (pool_at 100 0)"
    by (simp add: needs_in_range_def pool_at_def all_needs_def)
  have t1: "last_action_time (pool_at 100 0) \<le> 3600000000"
    and t2: "last_action_time (pool_at 100 0) \<le> 7200000000"
    and t0: "last_action_time (pool_at 100 0) = 0"
    by (simp_all add: pool_at_def StateManager_init_def)
  have v: "needs (pool_at 100 0) ENGAGEMENT = Some 100"
    by (simp add: pool_at_def)
  have r: "map_of decay_rates ENGAGEMENT = Some (1 / 2)"
    by (simp add: decay_rates_def)
  have h1: "1 = hours_since (last_action_time (pool_at 100 0)) 3600000000"
    and h2: "2 = hours_since (last_action_time (pool_at 100 0)) 7200000000"
    by (simp_all add: hours_since_def total_seconds_def pool_at_def StateManager_init_def)
  from a t0 decay_twice_accumulates[OF a t1 t2 v r h1 h2]
  show ?thesis by simp
qed

section \<open>Facts about saving and loading\<close>

lemma NeedState_of_need_value: "NeedState_of (need_value n) = Inr n"
  by (cases n) (simp_all add: NeedState_of_def)

lemma NeedState_of_Inr: "NeedState_of k = Inr n \<Longrightarrow> k = need_value n"
  by (auto simp: NeedState_of_def split: if_splits)

lemma NeedState_of_known: "known_key k \<Longrightarrow> \<exists>n. NeedState_of k = Inr n"
  by (auto simp: known_key_def all_needs_def NeedState_of_def)

lemma NeedState_of_unknown:
  "\<not> known_key k \<Longrightarrow> NeedState_of k = Inl (ValueError (k @ '' is not a valid NeedState''))"
  by (simp add: known_key_def all_needs_def NeedState_of_def)

lemma need_value_inj: "need_value n = need_value m \<longleftrightarrow> n = m"
  by (cases n; cases m) simp_all

lemma load_needs_dump:
  "load_needs (List.map_filter (\<lambda>k. map_option (\<lambda>v. (need_value k, v)) (nd k)) ks) acc =
     Inr (\<lambda>n. if n \<in> set ks \<and> nd n \<noteq> None then nd n else acc n)"
proof (induction ks arbitrary: acc)
  case Nil
  then show ?case by simp
next
  case (Cons k ks)
  let ?f = "\<lambda>k. map_option (\<lambda>v. (need_value k, v)) (nd k)"
  show ?case
  proof (cases "nd k")
    case None
    have "load_needs (List.map_filter ?f (k # ks)) acc = load_needs (List.map_filter ?f ks) acc"
      by (simp add: None)
    also have "\<dots> = Inr (\<lambda>n. if n \<in> set ks \<and> nd n \<noteq> None then nd n else acc n)"
      by (rule Cons)
    also have "(\<lambda>n. if n \<in> set ks \<and> nd n \<noteq> None then nd n else acc n) =
               (\<lambda>n. if n \<in> set (k # ks) \<and> nd n \<noteq> None then nd n else acc n)"
      using None by (intro ext) auto
    finally show ?thesis .
  next
    case (Some v)
    have "load_needs (List.map_filter ?f (k # ks)) acc =
          load_needs (List.map_filter ?f ks) (acc(k \<mapsto> v))"
      by (simp add: Some NeedState_of_need_value)
    also have "\<dots> = Inr (\<lambda>n. if n \<in> set ks \<and> nd n \<noteq> None then nd n else (acc(k \<mapsto> v)) n)"
      by (rule Cons)
    also have "(\<lambda>n. if n \<in> set ks \<and> nd n \<noteq> None then nd n else (acc(k \<mapsto> v)) n) =
               (\<lambda>n. if n \<in> set (k # ks) \<and> nd n \<noteq> None then nd n else acc n)"
      using Some by (intro ext) auto
    finally show ?thesis .
  qed
qed

lemma load_needs_dump_needs: "load_needs (dump_needs nd) Map.empty = Inr nd"
proof -
  have "(\<lambda>n. if n \<in> set all_needs \<and> nd n \<noteq> None then nd n else None) = nd"
    by (rule ext) (auto simp: all_needs_UNIV)
  then show ?thesis
    by (simp add: dump_needs_def load_needs_dump)
qed

lemma XMetrics_init_model_dump: "XMetrics_init now (model_dump m) = m"
  by (simp add: XMetrics_init_def model_dump_def)

lemma load_needs_known:
  "list_all known_key (map fst kvs) \<Longrightarrow>
   load_needs kvs acc =
     Inr (\<lambda>n. case map_of (rev kvs) (need_value n) of None \<Rightarrow> acc n | Some v \<Rightarrow> Some v)"
proof (induction kvs arbitrary: acc)
  case Nil
  then show ?case by simp
next
  case (Cons kv kvs)
  obtain k v where kv: "kv = (k, v)" by (cases kv)
  from Cons(2) kv obtain need where need: "NeedState_of k = Inr need"
    using NeedState_of_known by auto
  then have k: "k = need_value need" by (rule NeedState_of_Inr)
  have rest: "list_all known_key (map fst kvs)" using Cons(2) by simp
  have "load_needs (kv # kvs) acc = load_needs kvs (acc(need \<mapsto> v))"
    by (simp add: kv need)
  also have "\<dots> = Inr (\<lambda>n. case map_of (rev kvs) (need_value n) of
                              None \<Rightarrow> (acc(need \<mapsto> v)) n | Some w \<Rightarrow> Some w)"
    using rest by (rule Cons(1))
  also have "(\<lambda>n. case map_of (rev kvs) (need_value n) of
                     None \<Rightarrow> (acc(need \<mapsto> v)) n | Some w \<Rightarrow> Some w) =
             (\<lambda>n. case map_of (rev (kv # kvs)) (need_value n) of
                     None \<Rightarrow> acc n | Some w \<Rightarrow> Some w)"
    by (intro ext) (auto simp: kv k need_value_inj map_add_def split: option.splits)
  finally show ?case .
qed

lemma load_needs_unknown:
  "\<not> list_all known_key (map fst kvs) \<Longrightarrow> \<exists>m. load_needs kvs acc = Inl (ValueError m)"
proof (induction kvs arbitrary: acc)
  case Nil
  then show ?case by simp
next
  case (Cons kv kvs)
  obtain k v where kv: "kv = (k, v)" by (cases kv)
  show ?case
  proof (cases "known_key k")
    case True
    then obtain need where need: "NeedState_of k = Inr need"
      using NeedState_of_known by auto
    have "\<not> list_all known_key (map fst kvs)" using Cons(2) True kv by simp
    then obtain m where "load_needs kvs (acc(need \<mapsto> v)) = Inl (ValueError m)"
      using Cons(1) by blast
    moreover have "load_needs (kv # kvs) acc = load_needs kvs (acc(need \<mapsto> v))"
      by (simp add: kv need)
    ultimately show ?thesis by simp
  next
    case False
    then show ?thesis using kv by (simp add: NeedState_of_unknown)
  qed
qed

lemma map_of_rev_distinct: "distinct (map fst xs) \<Longrightarrow> map_of (rev xs) = map_of xs"
proof -
  assume d: "distinct (map fst xs)"
  have "map fst (rev xs) = rev (map fst xs)" by (simp add: rev_map)
  then have "distinct (map fst (rev xs))" using d by (simp only: distinct_rev)
  then show ?thesis using d by (simp add: map_of_inject_set)
qed

section \<open>C2: loading what was saved\<close>

text \<open>
  Claim C2. Loading right after saving reconstructs the saved state: whatever the state
  \<open>s\<close> that is saved and whatever the state the file is loaded into, \<open>load_state\<close>
  returns normally with needs, metrics and \<open>last_action_time\<close> equal to those of \<open>s\<close>.
  The serialisers of the library are taken to be lossless, which is the tolerance the
  claim allows.
\<close>

theorem load_save_roundtrip: "load_state now (save_state s) s0 = (Inr (), s)"
  by (simp add: load_state_def save_state_def load_needs_dump_needs XMetrics_init_model_dump)

text \<open>The pool with every need at 40 and last action at time 3, loaded into a fresh state.\<close>

theorem load_save_roundtrip_witness:
  "load_state 9 (save_state (pool_at 40 3)) (StateManager_init 9) = (Inr (), pool_at 40 3) \<and>
   needs (snd (load_state 9 (save_state (pool_at 40 3)) (StateManager_init 9))) REACH = Some 40 \<and>
   last_action_time (snd (load_state 9 (save_state (pool_at 40 3)) (StateManager_init 9))) = 3"
  using load_save_roundtrip[of 9 "pool_at 40 3" "StateManager_init 9"]
  by (simp add: pool_at_def StateManager_init_def)

section \<open>C8: the need keys of a stored snapshot\<close>

text \<open>
  Claim C8 says that load ignores unknown need keys and gives absent ones the value 100.
  The code does neither: a file whose needs are \<open>engagement\<close> and the unknown \<open>mood\<close>
  makes the load raise \<open>ValueError\<close> with the state untouched, and a file that stores
  only \<open>engagement\<close> loads into a pool in which \<open>reach\<close> has no value.
\<close>

theorem load_state_counterexample:
  "load_state 0 (Some (Doc (doc_with_needs [(''engagement'', 40), (''mood'', 7)])))
     (StateManager_init 0) =
     (Inl (ValueError ''mood is not a valid NeedState''), StateManager_init 0) \<and>
   fst (load_state 0 (Some (Doc (doc_with_needs [(''engagement'', 40)]))) (StateManager_init 0))
     = Inr () \<and>
   needs (snd (load_state 0 (Some (Doc (doc_with_needs [(''engagement'', 40)])))
     (StateManager_init 0))) REACH = None \<and>
   \<not> needs_defined (snd (load_state 0 (Some (Doc (doc_with_needs [(''engagement'', 40)])))
     (StateManager_init 0)))"
  by (simp add: load_state_def doc_with_needs_def NeedState_of_def needs_defined_def all_needs_def)

text \<open>
  Claim C8 as amended. With no file the state stays as it is (on the first run, every
  need at its initial 100). With a file whose need keys are distinct: if every key is
  the value of a \<open>NeedState\<close> member, the load returns normally and the pool holds
  exactly the stored keys with the stored values, so every need has a value after the
  load if and only if the file stores all of them; if some key is unknown, the load
  raises \<open>ValueError\<close> and leaves the state as it was.
\<close>

theorem load_state_stored_keys:
  assumes "distinct (map fst (sd_needs d))"
    and "s' = snd (load_state now (Some (Doc d)) s)"
  shows "load_state now None s = (Inr (), s) \<and>
         (list_all known_key (map fst (sd_needs d)) \<longrightarrow>
            fst (load_state now (Some (Doc d)) s) = Inr () \<and>
            (\<forall>n. needs s' n = map_of (sd_needs d) (need_value n)) \<and>
            (needs_defined s' \<longleftrightarrow>
               list_all (\<lambda>n. need_value n \<in> set (map fst (sd_needs d))) all_needs)) \<and>
         (\<not> list_all known_key (map fst (sd_needs d)) \<longrightarrow>
            (\<exists>m. load_state now (Some (Doc d)) s = (Inl (ValueError m), s)))"
proof -
  have c1: "load_state now None s = (Inr (), s)" by (simp add: load_state_def)
  have c2: "fst (load_state now (Some (Doc d)) s) = Inr () \<and>
            (\<forall>n. needs s' n = map_of (sd_needs d) (need_value n)) \<and>
            (needs_defined s' \<longleftrightarrow>
               list_all (\<lambda>n. need_value n \<in> set (map fst (sd_needs d))) all_needs)"
    if k: "list_all known_key (map fst (sd_needs d))"
  proof -
    have l: "load_needs (sd_needs d) Map.empty =
               Inr (\<lambda>n. map_of (sd_needs d) (need_value n))"
    proof -
      have "(\<lambda>n. case map_of (sd_needs d) (need_value n) of None \<Rightarrow> None | Some v \<Rightarrow> Some v) =
            (\<lambda>n. map_of (sd_needs d) (need_value n))"
        by (intro ext) (simp split: option.splits)
      then show ?thesis
        using load_needs_known[OF k, of Map.empty] map_of_rev_distinct[OF assms(1)] by simp
    qed
    have a: "fst (load_state now (Some (Doc d)) s) = Inr ()"
      by (simp add: load_state_def l)
    have b: "needs s' n = map_of (sd_needs d) (need_value n)" for n
      by (simp add: assms(2) load_state_def l)
    have "needs_defined s' \<longleftrightarrow> list_all (\<lambda>n. map_of (sd_needs d) (need_value n) \<noteq> None) all_needs"
      by (simp add: needs_defined_def b)
    also have "\<dots> \<longleftrightarrow> list_all (\<lambda>n. need_value n \<in> set (map fst (sd_needs d))) all_needs"
      by (simp add: map_of_eq_None_iff)
    finally show ?thesis using a b by blast
  qed
  have c3: "\<exists>m. load_state now (Some (Doc d)) s = (Inl (ValueError m), s)"
    if k: "\<not> list_all known_key (map fst (sd_needs d))"
  proof -
    obtain m where "load_needs (sd_needs d) Map.empty = Inl (ValueError m)"
      using load_needs_unknown[OF k] by blast
    then show ?thesis by (simp add: load_state_def)
  qed
  from c1 c2 c3 show ?thesis by blast
qed

text \<open>
  A file with \<open>engagement\<close> and \<open>reach\<close> loads with reach at 70 and no value for
  authority; the file with the unknown key \<open>mood\<close> raises and leaves the state.
\<close>

theorem load_state_stored_keys_witness:
  "distinct (map fst (sd_needs (doc_with_needs [(''engagement'', 40), (''reach'', 70)]))) \<and>
   list_all known_key (map fst (sd_needs (doc_with_needs [(''engagement'', 40), (''reach'', 70)]))) \<and>
   fst (load_state 0 (Some (Doc (doc_with_needs [(''engagement'', 40), (''reach'', 70)])))
         (StateManager_init 0)) = Inr () \<and>
   needs (snd (load_state 0 (Some (Doc (doc_with_needs [(''engagement'', 40), (''reach'', 70)])))
         (StateManager_init 0))) REACH = Some 70 \<and>
   needs (snd (load_state 0 (Some (Doc (doc_with_needs [(''engagement'', 40), (''reach'', 70)])))
         (StateManager_init 0))) AUTHORITY = None \<and>
   distinct (map fst (sd_needs (doc_with_needs [(''engagement'', 40), (''mood'', 7)]))) \<and>
   \<not> list_all known_key (map fst (sd_needs (doc_with_needs [(''engagement'', 40), (''mood'', 7)]))) \<and>
   (\<exists>m. load_state 0 (Some (Doc (doc_with_needs [(''engagement'', 40), (''mood'', 7)])))
         (StateManager_init 0) = (Inl (ValueError m), StateManager_init 0))"
proof -
  let ?d = "doc_with_needs [(''engagement'', 40), (''reach'', 70)]"
  let ?u = "doc_with_needs [(''engagement'', 40), (''mood'', 7)]"
  have dd: "distinct (map fst (sd_needs ?d))" and du: "distinct (map fst (sd_needs ?u))"
    by (simp_all add: doc_with_needs_def)
  have kd: "list_all known_key (map fst (sd_needs ?d))"
    by (simp add: doc_with_needs_def known_key_def all_needs_def)
  have ku: "\<not> list_all known_key (map fst (sd_needs ?u))"
    by (simp add: doc_with_needs_def known_key_def all_needs_def)
  note Td = load_state_stored_keys[OF dd refl, of 0 "StateManager_init 0"]
  note Tu = load_state_stored_keys[OF du refl, of 0 "StateManager_init 0"]
  have ok: "fst (load_state 0 (Some (Doc ?d)) (StateManager_init 0)) = Inr ()"
    using Td kd by blast
  have n: "needs (snd (load_state 0 (Some (Doc ?d)) (StateManager_init 0))) n =
           map_of (sd_needs ?d) (need_value n)" for n
    using Td kd by blast
  have v: "needs (snd (load_state 0 (Some (Doc ?d)) (StateManager_init 0))) REACH = Some 70"
    "needs (snd (load_state 0 (Some (Doc ?d)) (StateManager_init 0))) AUTHORITY = None"
    unfolding n by (simp_all add: doc_with_needs_def)
  have e: "\<exists>m. load_state 0 (Some (Doc ?u)) (StateManager_init 0) =
             (Inl (ValueError m), StateManager_init 0)"
    using Tu ku by blast
  from dd kd ok v du ku e show ?thesis by blast
qed

section \<open>C3: a failed cycle\<close>

text \<open>
  Claim C3 says that whenever the result of \<open>execute_action\<close> has an \<open>error\<close> key, the
  need pool is as before. The result also has that key when
  \<open>_update_state_from_action\<close> raises after it has changed some needs: on the state
  loaded from a file that stores \<open>engagement\<close> only, a \<open>POST\<close> that the API accepts
  raises the engagement from 40 to 55, then fails on \<open>reach\<close>, and the caller gets an
  error result.
\<close>

theorem execute_action_counterexample:
  "error_in (fst (execute_action mock_api 5 POST [(''text'', JStr ''Test tweet'')]
                    engagement_only None)) \<and>
   needs engagement_only ENGAGEMENT = Some 40 \<and>
   needs (fst (snd (execute_action mock_api 5 POST [(''text'', JStr ''Test tweet'')]
                    engagement_only None))) ENGAGEMENT = Some 55"
  by (simp add: execute_action_def perform_api_action_def mock_api_def error_in_def
      update_state_from_action_def initialize_action_effects_def engagement_only_def
      load_state_def doc_with_needs_def NeedState_of_def)

text \<open>
  Claim C3 as amended. When the API call of the action fails (it raises, the action
  kind has no API call, or the result of the call has an \<open>error\<close> key),
  \<open>execute_action\<close> leaves needs, metrics and \<open>last_action_time\<close> as they were, does
  not write the state file, and returns a result with an \<open>error\<close> key: the result of
  the API call, or the text of the exception.
\<close>

theorem execute_action_api_failure:
  assumes "api_failed api action kw"
  shows "error_in (fst (execute_action api now action kw s d)) \<and>
         snd (execute_action api now action kw s d) = (s, d) \<and>
         fst (execute_action api now action kw s d) =
           (case perform_api_action api action kw of
              Inl e \<Rightarrow> [(''error'', JStr (str_exn e))]
            | Inr r \<Rightarrow> r)"
proof (cases "perform_api_action api action kw")
  case (Inl e)
  then show ?thesis by (simp add: execute_action_def error_in_def)
next
  case (Inr r)
  then have "error_in r" using assms by (simp add: api_failed_def)
  then show ?thesis using Inr by (simp add: execute_action_def)
qed

text \<open>
  A \<open>POST\<close> answered with \<open>{"error": "rate limit"}\<close>, and a \<open>SEARCH\<close>, which has no API
  call: the pool at 50 and the absent state file are as before.
\<close>

theorem execute_action_api_failure_witness:
  "api_failed (failing_api ''rate limit'') POST [(''text'', JStr ''Test tweet'')] \<and>
   execute_action (failing_api ''rate limit'') 5 POST [(''text'', JStr ''Test tweet'')]
       (pool_at 50 0) None =
     ([(''error'', JStr ''rate limit'')], pool_at 50 0, None) \<and>
   api_failed mock_api SEARCH [] \<and>
   execute_action mock_api 5 SEARCH [] (pool_at 50 0) None =
     ([(''error'', JStr ''Unsupported action: ActionType.SEARCH'')], pool_at 50 0, None)"
proof -
  let ?kw = "[(''text'', JStr ''Test tweet'')]"
  have p1: "perform_api_action (failing_api ''rate limit'') POST ?kw =
              Inr [(''error'', JStr ''rate limit'')]"
    by (simp add: perform_api_action_def failing_api_def)
  have p2: "perform_api_action mock_api SEARCH [] =
              Inl (ValueError ''Unsupported action: ActionType.SEARCH'')"
    by (simp add: perform_api_action_def mock_api_def)
  have a1: "api_failed (failing_api ''rate limit'') POST ?kw"
    by (simp add: api_failed_def p1 error_in_def)
  have a2: "api_failed mock_api SEARCH []"
    by (simp add: api_failed_def p2)
  note T1 = execute_action_api_failure[OF a1, of 5 "pool_at 50 0" None]
  note T2 = execute_action_api_failure[OF a2, of 5 "pool_at 50 0" None]
  have e1: "execute_action (failing_api ''rate limit'') 5 POST ?kw (pool_at 50 0) None =
              ([(''error'', JStr ''rate limit'')], pool_at 50 0, None)"
    using T1 by (simp add: p1 prod_eq_iff)
  have e2: "execute_action mock_api 5 SEARCH [] (pool_at 50 0) None =
              ([(''error'', JStr ''Unsupported action: ActionType.SEARCH'')], pool_at 50 0, None)"
    using T2 by (simp add: p2 prod_eq_iff)
  from a1 e1 a2 e2 show ?thesis by blast
qed

section \<open>Facts about one pass of the request\<close>

lemma status_error_shape: "status_error r = Inr j \<Longrightarrow> \<exists>m. j = error_result m"
  by (auto simp: status_error_def bind_exn_def split: option.splits sum.splits if_splits)

lemma after_rate_limit_error:
  assumes "status_code r \<noteq> 200"
  shows "\<exists>m. (case after_rate_limit r of
               Inl e \<Rightarrow> error_result (JStr (str_exn e)) | Inr j \<Rightarrow> j) = error_result m"
proof (cases "status_error r")
  case (Inl e)
  then have "(case after_rate_limit r of
               Inl e \<Rightarrow> error_result (JStr (str_exn e)) | Inr j \<Rightarrow> j) =
             error_result (JStr (str_exn e))"
    using assms by (simp add: after_rate_limit_def)
  then show ?thesis by blast
next
  case (Inr j)
  then obtain m where "j = error_result m" using status_error_shape by blast
  then have "(case after_rate_limit r of
               Inl e \<Rightarrow> error_result (JStr (str_exn e)) | Inr j \<Rightarrow> j) = error_result m"
    using assms Inr by (simp add: after_rate_limit_def)
  then show ?thesis by blast
qed

lemma timestamp_int_future:
  assumes "0 \<le> now" and "now < t * 1000000"
  shows "timestamp_int now < t"
proof -
  have "now div 1000000 < t" using assms(2) by (simp add: div_less_iff_less_mult)
  then show ?thesis using assms(1) by (simp add: timestamp_int_def)
qed

lemma str_int_429: "str_int 429 = ''429''"
  by (simp add: str_int_def digit_char_def)

section \<open>C9: a throttled request\<close>

text \<open>
  Claim C9 says that on a 429 response the client sleeps \<open>max (T - now) 0\<close> seconds and
  then retries. The retry is inside \<open>if sleep_time > 0\<close>: when the reset time is not
  after the current second the client neither sleeps nor retries, and returns the 429
  response as an error, although here the next request would have succeeded.
\<close>

theorem make_request_counterexample:
  "make_request (throttled_once 100 (JObj [(''data'', JObj [(''id'', JStr ''1'')])]))
       (\<lambda>n. 200000000) 0 [] =
     Some (error_result (JStr ''API returned status code 429: {}''), []) \<and>
   make_request (throttled_once 100 (JObj [(''data'', JObj [(''id'', JStr ''1'')])]))
       (\<lambda>n. 200000000) 0 [] \<noteq>
     Some (JObj [(''data'', JObj [(''id'', JStr ''1'')])], [0])"
proof -
  have "request_step (throttled_once 100 (JObj [(''data'', JObj [(''id'', JStr ''1'')])]) 0)
          200000000 =
        Return (error_result (JStr ''API returned status code 429: {}''))"
    by (simp add: throttled_once_def throttled_def request_step_def after_rate_limit_def
        status_error_def bind_exn_def timestamp_int_def str_int_429)
  then have "make_request (throttled_once 100 (JObj [(''data'', JObj [(''id'', JStr ''1'')])]))
       (\<lambda>n. 200000000) 0 [] =
     Some (error_result (JStr ''API returned status code 429: {}''), [])"
    by (subst make_request.simps) simp
  then show ?thesis by (simp add: error_result_def)
qed

text \<open>
  Claim C9 as amended. On a 429 response with reset time \<open>t\<close> the client computes
  \<open>sleep_time = max (t - now) 0\<close> in whole seconds. When \<open>sleep_time\<close> is positive, as it
  is whenever \<open>t\<close> is after the time read (a time not before the epoch), it sleeps exactly
  that long
  and repeats the request; when the repeated request is answered with status 200 and a
  JSON body, the call returns that body after this one sleep. When \<open>sleep_time\<close> is 0 it
  does not sleep or retry and returns an error result.
\<close>

theorem make_request_throttled:
  assumes "server n = Inr r" and "status_code r = 429"
    and "rate_limit_reset r = Numeric t"
    and "sleep_time = max (t - timestamp_int (clock n)) 0"
  shows "(0 \<le> clock n \<and> clock n < t * 1000000 \<longrightarrow> 0 < sleep_time) \<and>
         (0 < sleep_time \<longrightarrow>
            make_request server clock n slept =
              make_request server clock (Suc n) (slept @ [sleep_time]) \<and>
            (\<forall>r' j. server (Suc n) = Inr r' \<and> status_code r' = 200 \<and> body r' = Some j \<longrightarrow>
               make_request server clock n slept = Some (j, slept @ [sleep_time]))) \<and>
         (sleep_time = 0 \<longrightarrow>
            (\<exists>m. make_request server clock n slept = Some (error_result m, slept)))"
proof -
  have c1: "0 < sleep_time" if "0 \<le> clock n" "clock n < t * 1000000"
    using timestamp_int_future[OF that] assms(4) by simp
  have retry: "request_step (server n) (clock n) = Retry sleep_time" if "0 < sleep_time"
  proof -
    have lt: "timestamp_int (clock n) < t"
      using that assms(4) by (simp add: max_def split: if_splits)
    then have "sleep_time = t - timestamp_int (clock n)" using assms(4) by simp
    then show ?thesis using lt assms(1-3) by (simp add: request_step_def Let_def)
  qed
  have c2: "make_request server clock n slept =
              make_request server clock (Suc n) (slept @ [sleep_time])" if "0 < sleep_time"
    using retry[OF that] by (subst make_request.simps) simp
  have c3: "make_request server clock n slept = Some (j, slept @ [sleep_time])"
    if "0 < sleep_time" "server (Suc n) = Inr r'" "status_code r' = 200" "body r' = Some j"
    for r' j
  proof -
    have "request_step (server (Suc n)) (clock (Suc n)) = Return j"
      using that(2-4) by (simp add: request_step_def Let_def after_rate_limit_def)
    then have "make_request server clock (Suc n) (slept @ [sleep_time]) =
                 Some (j, slept @ [sleep_time])"
      by (subst make_request.simps) simp
    then show ?thesis using c2[OF that(1)] by simp
  qed
  have c4: "\<exists>m. make_request server clock n slept = Some (error_result m, slept)"
    if z: "sleep_time = 0"
  proof -
    have ne: "status_code r \<noteq> 200" using assms(2) by simp
    obtain m where m: "(case after_rate_limit r of
               Inl e \<Rightarrow> error_result (JStr (str_exn e)) | Inr j \<Rightarrow> j) = error_result m"
      using after_rate_limit_error[OF ne] by blast
    have le: "\<not> 0 < max (t - timestamp_int (clock n)) 0" using z assms(4) by simp
    have "request_step (server n) (clock n) = Return (error_result m)"
    proof (cases "after_rate_limit r")
      case (Inl e)
      then show ?thesis using m le assms(1-3) by (simp add: request_step_def Let_def)
    next
      case (Inr j)
      then show ?thesis using m le assms(1-3) by (simp add: request_step_def Let_def)
    qed
    then have "make_request server clock n slept = Some (error_result m, slept)"
      by (subst make_request.simps) simp
    then show ?thesis by blast
  qed
  from c1 c2 c3 c4 show ?thesis by blast
qed

text \<open>
  Reset time 100 s: read at 40 s the client sleeps 60 s once and returns the body of the
  second response; read at 200 s it returns an error result without sleeping.
\<close>

theorem make_request_throttled_witness:
  "throttled_once 100 (JObj [(''data'', JObj [(''id'', JStr ''1'')])]) 0 = Inr (throttled 100) \<and>
   status_code (throttled 100) = 429 \<and>
   rate_limit_reset (throttled 100) = Numeric 100 \<and>
   60 = max (100 - timestamp_int 40000000) 0 \<and>
   make_request (throttled_once 100 (JObj [(''data'', JObj [(''id'', JStr ''1'')])]))
       (\<lambda>n. 40000000) 0 [] =
     Some (JObj [(''data'', JObj [(''id'', JStr ''1'')])], [60]) \<and>
   0 = max (100 - timestamp_int 200000000) 0 \<and>
   (\<exists>m. make_request (throttled_once 100 (JObj [(''data'', JObj [(''id'', JStr ''1'')])]))
       (\<lambda>n. 200000000) 0 [] = Some (error_result m, []))"
proof -
  let ?j = "JObj [(''data'', JObj [(''id'', JStr ''1'')])]"
  let ?srv = "throttled_once 100 ?j"
  have a: "?srv 0 = Inr (throttled 100)" by (simp add: throttled_once_def)
  have b: "status_code (throttled 100) = 429" by (simp add: throttled_def)
  have c: "rate_limit_reset (throttled 100) = Numeric 100" by (simp add: throttled_def)
  have d: "60 = max (100 - timestamp_int ((\<lambda>n. 40000000) (0::nat))) 0"
    by (simp add: timestamp_int_def)
  have e: "0 = max (100 - timestamp_int ((\<lambda>n. 200000000) (0::nat))) 0"
    by (simp add: timestamp_int_def)
  have nxt: "?srv (Suc 0) = Inr (ok_response ?j) \<and> status_code (ok_response ?j) = 200 \<and>
             body (ok_response ?j) = Some ?j"
    by (simp add: throttled_once_def ok_response_def)
  have pos: "(0::int) < 60" by simp
  note T = make_request_throttled[where server = ?srv and n = 0 and clock = "\<lambda>n. 40000000"
      and slept = "[]", OF a b c d]
  note U = make_request_throttled[where server = ?srv and n = 0 and clock = "\<lambda>n. 200000000"
      and slept = "[]", OF a b c e]
  have "make_request ?srv (\<lambda>n. 40000000) 0 [] = Some (?j, [] @ [60])"
    using T nxt pos by blast
  then have r1: "make_request ?srv (\<lambda>n. 40000000) 0 [] = Some (?j, [60])"
    by simp
  have r2: "\<exists>m. make_request ?srv (\<lambda>n. 200000000) 0 [] = Some (error_result m, [])"
    using U by blast
  from a b c d e r1 r2 show ?thesis by simp
qed

end
